theory Spec2Isabelle
  imports Main
begin

section \<open>JavaScript values and strings\<close>

text \<open>
  The program is TypeScript whose data is mostly of type \<open>any\<close>: whatever
  \<open>JSON.parse\<close> made of the external tool's output. Values are therefore one universal
  datatype, objects are association lists in key order, and every place where the
  source can throw is an \<open>error\<close> value. Strings are lists of 8-bit characters;
  numbers are integers (the program does no arithmetic on parsed numbers).
  \<open>TypeError\<close> and \<open>SyntaxError\<close> carry no message: their text depends on the engine.
\<close>

datatype error =
    SessionError string
  | QueryError string
  | TypeError
  | SyntaxError
  | SpawnError string

datatype jsval =
    JUndefined
  | JNull
  | JBool bool
  | JNum int
  | JStr string
  | JArr "jsval list"
  | JObj "(string \<times> jsval) list"
  | JDate jsval
  | JError error

text \<open>Truthiness, as \<open>if (v)\<close>, \<open>!v\<close>, \<open>a || b\<close> and \<open>a ? b : c\<close> test it.\<close>

fun truthy :: "jsval \<Rightarrow> bool" where
  "truthy JUndefined = False"
| "truthy JNull = False"
| "truthy (JBool b) = b"
| "truthy (JNum n) = (n \<noteq> 0)"
| "truthy (JStr s) = (s \<noteq> [])"
| "truthy (JArr xs) = True"
| "truthy (JObj kvs) = True"
| "truthy (JDate v) = True"
| "truthy (JError e) = True"

text \<open>\<open>a || b\<close>: the left operand when it is truthy, else the right one.\<close>

definition js_or :: "jsval \<Rightarrow> jsval \<Rightarrow> jsval" where
  "js_or a b = (if truthy a then a else b)"

text \<open>\<open>s.startsWith(p)\<close> and \<open>s.includes(p)\<close> (\<open>includes\<close> is reserved in Isabelle).\<close>

definition startsWith :: "string \<Rightarrow> string \<Rightarrow> bool" where
  "startsWith s p = (take (length p) s = p)"

fun includes_str :: "string \<Rightarrow> string \<Rightarrow> bool" where
  "includes_str [] p = (p = [])"
| "includes_str (c # cs) p = (startsWith (c # cs) p \<or> includes_str cs p)"

text \<open>
  \<open>s.split(sep)\<close> for a string separator: the pieces between the occurrences of
  \<open>sep\<close>, found from the left without overlap; an empty separator cuts \<open>s\<close> into
  its characters.
\<close>

fun split_from :: "string \<Rightarrow> string \<Rightarrow> string \<Rightarrow> string list" where
  "split_from sep piece [] = [piece]"
| "split_from sep piece (c # cs) =
     (if sep \<noteq> [] \<and> startsWith (c # cs) sep
      then piece # split_from sep [] (drop (length sep) (c # cs))
      else split_from sep (piece @ [c]) cs)"

definition split :: "string \<Rightarrow> string \<Rightarrow> string list" where
  "split s sep = (if sep = [] then map (\<lambda>c. [c]) s else split_from sep [] s)"

text \<open>\<open>xs[i]\<close> on an array: \<open>undefined\<close> (here \<open>None\<close>) out of range.\<close>

definition index :: "'a list \<Rightarrow> nat \<Rightarrow> 'a option" where
  "index xs i = (if i < length xs then Some (xs ! i) else None)"

text \<open>
  \<open>s.trim()\<close> removes white space and line terminators from both ends; among 8-bit
  characters these are tab, line feed, vertical tab, form feed, carriage return, space
  and the no-break space.
\<close>

definition isWhiteSpace :: "char \<Rightarrow> bool" where
  "isWhiteSpace c = (c \<in> set [CHR 0x09, CHR 0x0A, CHR 0x0B, CHR 0x0C, CHR 0x0D, CHR 0x20, CHR 0xA0])"

definition trim_str :: "string \<Rightarrow> string" where
  "trim_str s = rev (dropWhile isWhiteSpace (rev (dropWhile isWhiteSpace s)))"

text \<open>\<open>s.toLowerCase()\<close>. Only the letters A to Z are lowered; the one use in the
  program compares the result with \<open>'password'\<close>, which no other letter lowers into.\<close>

definition toLowerChar :: "char \<Rightarrow> char" where
  "toLowerChar c =
     (case map_of (zip ''ABCDEFGHIJKLMNOPQRSTUVWXYZ'' ''abcdefghijklmnopqrstuvwxyz'') c of
        Some d \<Rightarrow> d
      | None \<Rightarrow> c)"

definition toLowerCase :: "string \<Rightarrow> string" where
  "toLowerCase s = map toLowerChar s"

text \<open>
  Reading a property. \<open>v.p\<close> throws a TypeError when \<open>v\<close> is \<open>undefined\<close> or
  \<open>null\<close>; on every other value it yields the own property, or \<open>undefined\<close>.
  Besides the keys of an object only \<open>length\<close> of a string or an array is a property
  the program reads, and it only tests that length against 0.
\<close>

definition nullish :: "jsval \<Rightarrow> bool" where
  "nullish v = (v = JUndefined \<or> v = JNull)"

fun property :: "jsval \<Rightarrow> string \<Rightarrow> jsval" where
  "property (JObj kvs) p = (case map_of kvs p of Some v \<Rightarrow> v | None \<Rightarrow> JUndefined)"
| "property (JStr s) p = (if p = ''length'' then JNum (int (length s)) else JUndefined)"
| "property (JArr xs) p = (if p = ''length'' then JNum (int (length xs)) else JUndefined)"
| "property v p = JUndefined"

definition get :: "jsval \<Rightarrow> string \<Rightarrow> error + jsval" where
  "get v p = (if nullish v then Inl TypeError else Inr (property v p))"

text \<open>
  \<open>a === b\<close>. Primitives are compared by value. Objects and arrays are compared by
  identity; wherever the program uses \<open>===\<close> the two operands come from different
  outputs of the tool or one is a string, so two objects are never the same object.
\<close>

fun primitive :: "jsval \<Rightarrow> bool" where
  "primitive (JArr xs) = False"
| "primitive (JObj kvs) = False"
| "primitive (JDate v) = False"
| "primitive (JError e) = False"
| "primitive v = True"

definition strict_eq :: "jsval \<Rightarrow> jsval \<Rightarrow> bool" where
  "strict_eq a b = (primitive a \<and> a = b)"

text \<open>
  The text a template literal \<open>`${v}`\<close> inserts for \<open>v\<close>. An integer is written in
  decimal (JavaScript changes to an exponent from \<open>10^21\<close> on). The program
  interpolates only strings and values parsed from the tool's output; the entries for a
  Date (whose text depends on the host's time zone) and for an error object are never
  used.
\<close>

fun digits :: "nat \<Rightarrow> string" where
  "digits n = (if n < 10 then [char_of (48 + n)] else digits (n div 10) @ [char_of (48 + n mod 10)])"

fun join :: "string \<Rightarrow> string list \<Rightarrow> string" where
  "join sep [] = []"
| "join sep [s] = s"
| "join sep (s # t # ts) = s @ sep @ join sep (t # ts)"

fun toString :: "jsval \<Rightarrow> string" where
  "toString JUndefined = ''undefined''"
| "toString JNull = ''null''"
| "toString (JBool b) = (if b then ''true'' else ''false'')"
| "toString (JNum n) = (if n < 0 then ''-'' @ digits (nat (- n)) else digits (nat n))"
| "toString (JStr s) = s"
| "toString (JArr xs) = join '','' (map (\<lambda>x. if nullish x then [] else toString x) xs)"
| "toString (JObj kvs) = ''[object Object]''"
| "toString (JDate v) = ''Invalid Date''"
| "toString (JError e) = ''Error''"

text \<open>
  \<open>v > 0\<close>. The operand is converted to a number first: \<open>undefined\<close> is NaN (here
  \<open>None\<close>), \<open>null\<close> and \<open>false\<close> are 0, \<open>true\<close> is 1, and a string, or an object
  through its text, goes through the language's string-to-number grammar, which is the
  parameter \<open>str2num\<close>.
\<close>

fun toNumber :: "(string \<Rightarrow> int option) \<Rightarrow> jsval \<Rightarrow> int option" where
  "toNumber str2num JUndefined = None"
| "toNumber str2num JNull = Some 0"
| "toNumber str2num (JBool b) = Some (if b then 1 else 0)"
| "toNumber str2num (JNum n) = Some n"
| "toNumber str2num v = str2num (toString v)"

definition gt_zero :: "(string \<Rightarrow> int option) \<Rightarrow> jsval \<Rightarrow> bool" where
  "gt_zero str2num v = (case toNumber str2num v of None \<Rightarrow> False | Some n \<Rightarrow> n > 0)"

text \<open>
  Array methods with a callback that may throw. \<open>xs.find(f)\<close> stops at the first
  element \<open>f\<close> accepts and yields \<open>undefined\<close> when there is none; \<open>xs.filter(f)\<close>
  and \<open>xs.map(f)\<close> visit every element in order. Calling one of them on a value that
  is not an array throws a TypeError (\<open>as_array\<close>).
\<close>

fun find_js :: "(jsval \<Rightarrow> error + bool) \<Rightarrow> jsval list \<Rightarrow> error + jsval" where
  "find_js f [] = Inr JUndefined"
| "find_js f (x # xs) =
     (case f x of
        Inl e \<Rightarrow> Inl e
      | Inr b \<Rightarrow> if b then Inr x else find_js f xs)"

fun filter_js :: "(jsval \<Rightarrow> error + bool) \<Rightarrow> jsval list \<Rightarrow> error + jsval list" where
  "filter_js f [] = Inr []"
| "filter_js f (x # xs) =
     (case f x of
        Inl e \<Rightarrow> Inl e
      | Inr b \<Rightarrow>
          (case filter_js f xs of
             Inl e \<Rightarrow> Inl e
           | Inr ys \<Rightarrow> Inr (if b then x # ys else ys)))"

fun map_js :: "(jsval \<Rightarrow> error + jsval) \<Rightarrow> jsval list \<Rightarrow> error + jsval list" where
  "map_js f [] = Inr []"
| "map_js f (x # xs) =
     (case f x of
        Inl e \<Rightarrow> Inl e
      | Inr y \<Rightarrow>
          (case map_js f xs of
             Inl e \<Rightarrow> Inl e
           | Inr ys \<Rightarrow> Inr (y # ys)))"

definition as_array :: "jsval \<Rightarrow> error + jsval list" where
  "as_array v = (case v of JArr xs \<Rightarrow> Inr xs | _ \<Rightarrow> Inl TypeError)"

text \<open>
  \<open>Object.assign(target, source)\<close> on the key lists of two objects: a key of the
  source replaces the target's value in place or is added at the end.
\<close>

fun assign :: "(string \<times> 'a) list \<Rightarrow> (string \<times> 'a) list \<Rightarrow> (string \<times> 'a) list" where
  "assign target [] = target"
| "assign target ((k, v) # source) =
     assign (if k \<in> fst ` set target then map (\<lambda>(k', v'). if k' = k then (k', v) else (k', v')) target
             else target @ [(k, v)]) source"

section \<open>Session Gate\<close>

text \<open>
  \<open>type Session = { token: string, expiresAt: Date }\<close>. A date is its time value in
  milliseconds. memoizee compares arguments with \<open>===\<close>, that is objects by identity,
  so the record also carries the identity of the object (\<open>ident\<close>): two sessions are
  the same argument exactly when they are the same object.
\<close>

record Session =
  ident :: nat
  token :: string
  expiresAt :: int

text \<open>
  \<open>isValidSession\<close> (lines 42-44); the value of \<open>Date.now()\<close> is the first argument.
\<close>

definition isValidSession :: "int \<Rightarrow> Session \<Rightarrow> bool" where
  "isValidSession now session = (expiresAt session > now)"

section \<open>Response classifier\<close>

text \<open>
  The error envelope of \<open>exec\<close> (lines 329-332):
  \<open>result.split('---')[1].split('(ERROR)')[1].trim()\<close>. Calling \<open>split\<close> or
  \<open>trim\<close> on \<open>undefined\<close> throws a TypeError.
\<close>

definition error_message :: "string \<Rightarrow> error + string" where
  "error_message result =
     (case index (split result ''---'') 1 of
        None \<Rightarrow> Inl TypeError
      | Some logline \<Rightarrow>
          (case index (split logline ''(ERROR)'') 1 of
             None \<Rightarrow> Inl TypeError
           | Some message \<Rightarrow> Inr (trim_str message)))"

text \<open>
  The rest of \<open>exec\<close> after the subprocess has answered (lines 328-343). \<open>parse\<close> is
  \<open>JSON.parse\<close>, a builtin of the language taken as a parameter (\<open>None\<close> when it
  throws its SyntaxError); \<open>raw\<close> is \<open>options.raw\<close>.
\<close>

definition classify :: "(string \<Rightarrow> jsval option) \<Rightarrow> bool \<Rightarrow> string \<Rightarrow> error + jsval" where
  "classify parse raw result =
     (if startsWith result ''[bin-error]'' then
        (case error_message result of
           Inl e \<Rightarrow> Inl e
         | Inr error \<Rightarrow>
             if truthy (js_or (JBool (includes_str error ''You are not currently signed in.''))
                              (JStr ''401: Authentication required''))
             then Inl (SessionError ''Session invalid'')
             else Inl (QueryError error))
      else if raw then Inr (JStr result)
      else (case parse result of None \<Rightarrow> Inl SyntaxError | Some v \<Rightarrow> Inr v))"

section \<open>Normalization: the per-template mapping rule\<close>

text \<open>
  The callbacks of the two \<open>find\<close> calls in \<open>mapper\<close> (lines 273-278):
  \<open>field.name.toLowerCase() === 'password' && field.type === 'P'\<close>, and the same with
  \<open>designation\<close>. Reading \<open>name\<close> of \<open>undefined\<close> or \<open>null\<close> throws, and so does
  calling \<open>toLowerCase\<close> on anything but a string.
\<close>

definition lowered_is_password :: "string \<Rightarrow> jsval \<Rightarrow> error + bool" where
  "lowered_is_password key fld =
     (if nullish fld then Inl TypeError
      else case property fld key of
        JStr s \<Rightarrow> Inr (toLowerCase s = ''password'' \<and> strict_eq (property fld ''type'') (JStr ''P''))
      | _ \<Rightarrow> Inl TypeError)"

text \<open>
  \<open>mapper\<close> (lines 268-294). The \<open>switch\<close> compares with \<open>===\<close>; its \<open>default\<close>
  holds an empty block, so for every other template the function returns \<open>undefined\<close>.
  In the first branch the object literal has both keys, \<open>password\<close> possibly with the
  value \<open>undefined\<close>.
\<close>

definition mapper :: "jsval \<Rightarrow> jsval \<Rightarrow> error + jsval" where
  "mapper item template =
     (if nullish template then Inl TypeError
      else if strict_eq (property template ''uuid'') (JStr ''001'') then
        (if nullish item then Inl TypeError
         else if truthy (property item ''details'')
               \<and> truthy (property (property item ''details'') ''fields'') then
           (case as_array (property (property item ''details'') ''fields'') of
              Inl e \<Rightarrow> Inl e
            | Inr flds \<Rightarrow>
                (case find_js (lowered_is_password ''name'') flds of
                   Inl e \<Rightarrow> Inl e
                 | Inr passwordFieldFromName \<Rightarrow>
                     (case find_js (lowered_is_password ''designation'') flds of
                        Inl e \<Rightarrow> Inl e
                      | Inr passwordFieldFromDesignation \<Rightarrow>
                          (let password =
                                 (if truthy passwordFieldFromName
                                  then property passwordFieldFromName ''value''
                                  else if truthy passwordFieldFromDesignation
                                  then property passwordFieldFromDesignation ''value''
                                  else JUndefined)
                           in case get (property item ''overview'') ''ainfo'' of
                                Inl e \<Rightarrow> Inl e
                              | Inr ainfo \<Rightarrow>
                                  Inr (JObj [(''username'', ainfo), (''password'', password)])))))
         else
           (case get (property item ''overview'') ''ainfo'' of
              Inl e \<Rightarrow> Inl e
            | Inr ainfo \<Rightarrow> Inr (JObj [(''username'', ainfo)])))
      else Inr JUndefined)"




fun is_object :: "jsval \<Rightarrow> bool" where
  "is_object (JObj kvs) = True"
| "is_object v = False"



section \<open>Typed inputs and the parameters of the model\<close>

record Credentials =
  domain :: string
  email :: string
  secretKey :: string
  masterPassword :: string

record Vault =
  uuid :: string
  name :: string

record Template =
  uuid :: string
  name :: string

text \<open>
  The options of fuse.js. The library is not part of the program, so an option value is
  only passed on: a boolean, a number (\<open>FDecimal m e\<close> is \<open>m / 10^e\<close>) or the list of
  keys.
\<close>

datatype fuse_value = FBool bool | FNum int | FDecimal int nat | FKeys "string list"

text \<open>
  \<open>ItemsOptions\<close>; the fields are named \<open>o_vault\<close>, ... so that \<open>vault\<close>,
  \<open>template\<close> and \<open>query\<close> stay free for the parameters of the functions. An absent
  \<open>fuse\<close> is the empty list. \<open>o_ident\<close> is the identity of the options object.
\<close>

record ItemsOptions =
  o_ident :: nat
  o_vault :: "Vault option"
  o_template :: "Template option"
  o_query :: "string option"
  o_fuse :: "(string \<times> fuse_value) list"

text \<open>
  What the program takes from its language and its libraries:
  \<^item> \<open>json_parse\<close> is \<open>JSON.parse\<close> (\<open>None\<close> for its SyntaxError);
  \<^item> \<open>str2num\<close> is the conversion of a string to a number (\<open>None\<close> for NaN);
  \<^item> \<open>fuse_search items options query\<close> is \<open>new Fuse(items, options).search(query)\<close>;
  \<^item> \<open>getItems_length\<close> is the \<open>length\<close> of the function given to \<open>memoize\<close> at
    line 203, the number of arguments memoizee makes the key of: 1 for the function as
    it is written, whose second parameter has a default value, and 2 once the compiler
    has lowered the default value into the body.
\<close>

record env =
  json_parse :: "string \<Rightarrow> jsval option"
  str2num :: "string \<Rightarrow> int option"
  fuse_search :: "jsval \<Rightarrow> (string \<times> fuse_value) list \<Rightarrow> string \<Rightarrow> error + jsval"
  getItems_length :: nat

section \<open>Asynchronous functions\<close>

text \<open>
  An \<open>async\<close> function is a value of type \<open>task\<close>: what it does until it returns
  (\<open>Resolve\<close>) or throws (\<open>Reject\<close>), with one node for each effect and the rest of
  the function as the continuation of that node:
  \<^item> \<open>Now k\<close> reads the clock (\<open>Date.now()\<close>, \<open>new Date()\<close>);
  \<^item> \<open>Fork args k\<close> is \<open>child_process.fork(`${__dirname}/bin`, [opPath, args], ...)\<close>
    in \<open>forkBin\<close>: the subprocess is spawned when the node is reached, and \<open>k\<close>
    receives what the child wrote to its standard output when it closes, or the error
    of its \<open>error\<close> event. The module path and \<open>opPath\<close> are constants of the process
    and are left out;
  \<^item> \<open>Memo f key body k\<close> awaits a call of the function that \<open>memoize\<close> made of the
    \<open>async\<close> function \<open>f\<close>. memoizee is given no option, so what it caches under the
    key is the promise the function returned: \<open>body\<close> is started if the cache of \<open>f\<close>
    has no entry for \<open>key\<close>, and \<open>k\<close> receives the outcome of the cached promise;
  \<^item> \<open>PromiseAll ts k\<close> awaits \<open>Promise.all\<close> of the promises of the \<open>async\<close>
    calls \<open>ts\<close>, all started in order before the first of them is awaited.
  The arguments memoizee compares with \<open>===\<close> are \<open>arg\<close>s: a primitive by its
  value, an object by its identity. A session or options object is the same argument
  when the record is the same, identity included; an id that is itself an object or an
  array (which the tool never writes) would be compared by identity, and is compared
  by value here.
\<close>

datatype fname = GetAccount | GetUsers | GetUser | GetTemplates | GetVault | GetItems | GetItem

datatype arg = ASession Session | AOptions ItemsOptions | AVal jsval

datatype task =
    Resolve jsval
  | Reject error
  | Now "int \<Rightarrow> task"
  | Fork "string list" "error + string \<Rightarrow> task"
  | Memo fname "arg list" task "error + jsval \<Rightarrow> task"
  | PromiseAll "task list" "error + jsval list \<Rightarrow> task"

text \<open>\<open>return\<close> or \<open>throw\<close> of a computed outcome.\<close>

definition settle :: "error + jsval \<Rightarrow> task" where
  "settle r = (case r of Inl e \<Rightarrow> Reject e | Inr v \<Rightarrow> Resolve v)"

text \<open>
  \<open>const x = await t; ...\<close>: the rest of the function runs with the value \<open>t\<close>
  resolves to, and a rejection of \<open>t\<close> is thrown at the \<open>await\<close>.
\<close>

primrec await :: "task \<Rightarrow> (jsval \<Rightarrow> task) \<Rightarrow> task" where
  "await (Resolve v) f = f v"
| "await (Reject e) f = Reject e"
| "await (Now k) f = Now (\<lambda>t. await (k t) f)"
| "await (Fork args k) f = Fork args (\<lambda>r. await (k r) f)"
| "await (Memo g key body k) f = Memo g key body (\<lambda>r. await (k r) f)"
| "await (PromiseAll ts k) f = PromiseAll ts (\<lambda>r. await (k r) f)"

text \<open>\<open>try { ... } catch (e) { ... }\<close> around a task.\<close>

primrec catch_task :: "task \<Rightarrow> (error \<Rightarrow> task) \<Rightarrow> task" where
  "catch_task (Resolve v) h = Resolve v"
| "catch_task (Reject e) h = h e"
| "catch_task (Now k) h = Now (\<lambda>t. catch_task (k t) h)"
| "catch_task (Fork args k) h = Fork args (\<lambda>r. catch_task (k r) h)"
| "catch_task (Memo g key body k) h = Memo g key body (\<lambda>r. catch_task (k r) h)"
| "catch_task (PromiseAll ts k) h = PromiseAll ts (\<lambda>r. catch_task (k r) h)"

section \<open>Engine\<close>

text \<open>
  The command builder of \<open>exec\<close> (lines 308-318), with the value of \<open>Date.now()\<close> as
  its first argument. A session or a vault that is given is an object, hence truthy.
\<close>

definition command_args :: "int \<Rightarrow> string \<Rightarrow> Session option \<Rightarrow> Vault option \<Rightarrow> error + string list" where
  "command_args now command session vault =
     (case (case session of
              None \<Rightarrow> Inr (split command '' '')
            | Some s \<Rightarrow>
                if isValidSession now s
                then Inr (split command '' '' @ [''--session='' @ token s])
                else Inl (SessionError ''Session invalid'')) of
        Inl e \<Rightarrow> Inl e
      | Inr args \<Rightarrow>
          Inr (case vault of None \<Rightarrow> args | Some v \<Rightarrow> args @ [''--vault='' @ Vault.name v]))"

text \<open>
  \<open>forkBin\<close> (lines 346-368): the promise resolves with the trimmed output when the
  child closes and rejects on the child's \<open>error\<close> event.
\<close>

definition forkBin :: "string list \<Rightarrow> (string \<Rightarrow> task) \<Rightarrow> task" where
  "forkBin args k = Fork args (\<lambda>r. case r of Inl e \<Rightarrow> Reject e | Inr out \<Rightarrow> k (trim_str out))"

text \<open>
  \<open>exec\<close> (lines 304-344); \<open>session\<close>, \<open>vault\<close> and \<open>raw\<close> are the fields of its
  options. The source reads the clock only when a session is given; reading it in the
  other case as well changes nothing.
\<close>

definition exec :: "env \<Rightarrow> string \<Rightarrow> Session option \<Rightarrow> Vault option \<Rightarrow> bool \<Rightarrow> task" where
  "exec env command session vault raw =
     Now (\<lambda>now.
       case command_args now command session vault of
         Inl e \<Rightarrow> Reject e
       | Inr args \<Rightarrow> forkBin args (\<lambda>result. settle (classify (json_parse env) raw result)))"

section \<open>Authentication\<close>

text \<open>
  \<open>generateTokenExpirationDate\<close> (lines 370-373) adds 29 to the minutes of the local
  time, which is 29 times 60000 milliseconds where the local clock does not shift.
\<close>

definition generateTokenExpirationDate :: "int \<Rightarrow> int" where
  "generateTokenExpirationDate now = now + 29 * 60000"

text \<open>The command of line 31.\<close>

definition signin_command :: "Credentials \<Rightarrow> string" where
  "signin_command credentials =
     ''signin '' @ domain credentials @ '' '' @ email credentials @ '' ''
       @ secretKey credentials @ '' '' @ masterPassword credentials @ '' --output=raw''"

text \<open>\<open>getSessionToken\<close> (lines 27-40): the \<open>catch\<close> returns the error it caught.\<close>

definition getSessionToken :: "env \<Rightarrow> Credentials \<Rightarrow> task" where
  "getSessionToken env credentials =
     catch_task
       (await (exec env (signin_command credentials) None None True)
          (\<lambda>tok. Now (\<lambda>now.
             Resolve (JObj [(''token'', tok),
                            (''expiresAt'', JDate (JNum (generateTokenExpirationDate now)))]))))
       (\<lambda>e. Resolve (JError e))"

section \<open>Account, users, templates, vaults\<close>

text \<open>The object \<open>getAccount\<close> builds from the parsed answer (lines 59-65).\<close>

definition account_of :: "jsval \<Rightarrow> error + jsval" where
  "account_of account =
     (if nullish account then Inl TypeError
      else Inr (JObj
        [(''uuid'', property account ''uuid''),
         (''name'', property account ''name''),
         (''avatarUrl'', JStr (toString (property account ''baseAvatarURL'')
                               @ toString (property account ''uuid'') @ ''/''
                               @ toString (property account ''avatar''))),
         (''baseAvatarURL'', JStr (toString (property account ''baseAvatarURL'')
                                   @ toString (property account ''uuid''))),
         (''createdAt'', JDate (property account ''createdAt''))]))"

definition getAccount_body :: "env \<Rightarrow> Session \<Rightarrow> task" where
  "getAccount_body env session =
     await (exec env ''get account'' (Some session) None False)
       (\<lambda>account. settle (account_of account))"

definition getAccount :: "env \<Rightarrow> Session \<Rightarrow> task" where
  "getAccount env session =
     Memo GetAccount [ASession session] (getAccount_body env session) settle"

text \<open>\<open>userAvatarUrl\<close> (lines 123-127) and the avatar rule of \<open>getVault\<close> (lines 161-163).\<close>

definition avatar_url :: "env \<Rightarrow> string \<Rightarrow> jsval \<Rightarrow> jsval \<Rightarrow> error + jsval" where
  "avatar_url env default_url owner account =
     (if nullish owner \<or> nullish (property owner ''avatar'') then Inl TypeError
      else if gt_zero (str2num env) (property (property owner ''avatar'') ''length'')
      then (if nullish account then Inl TypeError
            else Inr (JStr (toString (property account ''baseAvatarURL'') @ ''/''
                            @ toString (property owner ''avatar''))))
      else Inr (JStr default_url))"

definition userAvatarUrl :: "env \<Rightarrow> jsval \<Rightarrow> jsval \<Rightarrow> error + jsval" where
  "userAvatarUrl env user account =
     avatar_url env ''https://a.1password.com/app/images/avatar-person-default.png'' user account"

text \<open>The callback of \<open>users.map\<close> in \<open>getUsers\<close> (lines 89-100).\<close>

definition user_of :: "env \<Rightarrow> jsval \<Rightarrow> jsval \<Rightarrow> error + jsval" where
  "user_of env account user =
     (if nullish user then Inl TypeError
      else case userAvatarUrl env user account of
        Inl e \<Rightarrow> Inl e
      | Inr avatarUrl \<Rightarrow>
          Inr (JObj [(''uuid'', property user ''uuid''),
                     (''firstName'', property user ''firstName''),
                     (''lastName'', property user ''lastName''),
                     (''email'', property user ''email''),
                     (''avatarUrl'', avatarUrl)]))"

definition getUsers_body :: "env \<Rightarrow> Session \<Rightarrow> task" where
  "getUsers_body env session =
     await (exec env ''list users'' (Some session) None False) (\<lambda>users.
     await (getAccount env session) (\<lambda>account.
       settle (case as_array users of
                 Inl e \<Rightarrow> Inl e
               | Inr us \<Rightarrow>
                   (case map_js (user_of env account) us of
                      Inl e \<Rightarrow> Inl e
                    | Inr vs \<Rightarrow> Inr (JArr vs)))))"

definition getUsers :: "env \<Rightarrow> Session \<Rightarrow> task" where
  "getUsers env session =
     Memo GetUsers [ASession session] (getUsers_body env session) settle"

text \<open>The object \<open>getUser\<close> builds (lines 107-120).\<close>

definition user_details_of :: "env \<Rightarrow> jsval \<Rightarrow> jsval \<Rightarrow> error + jsval" where
  "user_details_of env account user =
     (if nullish user then Inl TypeError
      else case userAvatarUrl env user account of
        Inl e \<Rightarrow> Inl e
      | Inr avatarUrl \<Rightarrow>
          Inr (JObj [(''uuid'', property user ''uuid''),
                     (''firstName'', property user ''firstName''),
                     (''lastName'', property user ''lastName''),
                     (''email'', property user ''email''),
                     (''language'', property user ''language''),
                     (''avatarUrl'', avatarUrl),
                     (''createdAt'', JDate (property user ''createdAt'')),
                     (''updatedAt'', JDate (property user ''updatedAt'')),
                     (''lastAuthAt'', JDate (property user ''lastAuthAt''))]))"

definition getUser_body :: "env \<Rightarrow> Session \<Rightarrow> string \<Rightarrow> task" where
  "getUser_body env session user_id =
     await (exec env (''get user '' @ user_id) (Some session) None False) (\<lambda>user.
     await (getAccount env session) (\<lambda>account.
       settle (user_details_of env account user)))"

definition getUser :: "env \<Rightarrow> Session \<Rightarrow> string \<Rightarrow> task" where
  "getUser env session user_id =
     Memo GetUser [ASession session, AVal (JStr user_id)] (getUser_body env session user_id) settle"

definition getTemplates_body :: "env \<Rightarrow> Session \<Rightarrow> task" where
  "getTemplates_body env session = exec env ''list templates'' (Some session) None False"

definition getTemplates :: "env \<Rightarrow> Session \<Rightarrow> task" where
  "getTemplates env session =
     Memo GetTemplates [ASession session] (getTemplates_body env session) settle"

text \<open>\<open>getVaults\<close> (lines 152-154) is a plain \<open>async\<close> function: it is not given to
  \<open>memoize\<close>.\<close>

definition getVaults :: "env \<Rightarrow> Session \<Rightarrow> task" where
  "getVaults env session = exec env ''list vaults'' (Some session) None False"

text \<open>
  \<open>getVault\<close> (lines 156-171). \<open>format\<close> calls it with the \<open>vaultUuid\<close> of a parsed
  record, so the id is any value; the template literal inserts its text.
\<close>

definition vault_details_of :: "env \<Rightarrow> jsval \<Rightarrow> jsval \<Rightarrow> error + jsval" where
  "vault_details_of env account vault =
     (if nullish vault then Inl TypeError
      else case avatar_url env ''https://a.1password.com/app/images/avatar-vault-default.png''
                  vault account of
        Inl e \<Rightarrow> Inl e
      | Inr avatarUrl \<Rightarrow>
          Inr (JObj [(''uuid'', property vault ''uuid''),
                     (''name'', property vault ''name''),
                     (''description'', property vault ''desc''),
                     (''avatarUrl'', avatarUrl)]))"

definition getVault_body :: "env \<Rightarrow> Session \<Rightarrow> jsval \<Rightarrow> task" where
  "getVault_body env session vault_id =
     await (exec env (''get vault '' @ toString vault_id) (Some session) None False) (\<lambda>vault.
     await (getAccount env session) (\<lambda>account.
       settle (vault_details_of env account vault)))"

definition getVault :: "env \<Rightarrow> Session \<Rightarrow> jsval \<Rightarrow> task" where
  "getVault env session vault_id =
     Memo GetVault [ASession session, AVal vault_id] (getVault_body env session vault_id) settle"

section \<open>Normalization: format and trim\<close>

text \<open>
  \<open>Object.assign\<close> skips a source that is \<open>undefined\<close> or \<open>null\<close> and copies the
  keys of an object; \<open>mapper\<close> returns nothing else.
\<close>

definition own_keys :: "jsval \<Rightarrow> (string \<times> jsval) list" where
  "own_keys v = (case v of JObj kvs \<Rightarrow> kvs | _ \<Rightarrow> [])"

text \<open>
  \<open>format\<close> after its two awaits (lines 240-250): the template is looked up in the
  list \<open>getTemplates\<close> resolved to, and the item is assembled from the record, the
  vault \<open>getVault\<close> resolved to, the template found, and what \<open>mapper\<close> adds.
\<close>

definition format_item :: "jsval \<Rightarrow> jsval \<Rightarrow> jsval \<Rightarrow> error + jsval" where
  "format_item item vault templates =
     (case as_array templates of
        Inl e \<Rightarrow> Inl e
      | Inr ts \<Rightarrow>
          (case find_js (\<lambda>template.
                   if nullish template then Inl TypeError
                   else Inr (strict_eq (property template ''uuid'') (property item ''templateUuid''))) ts of
             Inl e \<Rightarrow> Inl e
           | Inr template \<Rightarrow>
               (case mapper item template of
                  Inl e \<Rightarrow> Inl e
                | Inr mapped \<Rightarrow>
                    Inr (JObj (assign [(''uuid'', property item ''uuid''),
                                       (''vault'', vault),
                                       (''template'', template),
                                       (''title'', property (property item ''overview'') ''title'')]
                                      (own_keys mapped))))))"

text \<open>
  \<open>format\<close> (lines 236-251). The destructuring at line 237 throws when the record or
  its \<open>overview\<close> is \<open>undefined\<close> or \<open>null\<close>.
\<close>

definition format :: "env \<Rightarrow> Session \<Rightarrow> jsval \<Rightarrow> task" where
  "format env session item =
     (if nullish item \<or> nullish (property item ''overview'') then Reject TypeError
      else
        await (getVault env session (property item ''vaultUuid'')) (\<lambda>vault.
        await (getTemplates env session) (\<lambda>templates.
          settle (format_item item vault templates))))"

text \<open>The callback of \<open>data.filter\<close> in \<open>trim\<close> (lines 255-261).\<close>

definition template_filter :: "Template option \<Rightarrow> jsval \<Rightarrow> error + bool" where
  "template_filter template item =
     (case template of
        Some t \<Rightarrow>
          (if nullish item \<or> nullish (property item ''template'') then Inl TypeError
           else Inr (strict_eq (property (property item ''template'') ''uuid'') (JStr (Template.uuid t))))
      | None \<Rightarrow> Inr True)"

text \<open>\<open>trim\<close> (lines 235-266).\<close>

definition trim :: "env \<Rightarrow> Session \<Rightarrow> jsval \<Rightarrow> Template option \<Rightarrow> task" where
  "trim env session data template =
     (case data of
        JArr xs \<Rightarrow>
          (case filter_js (template_filter template) xs of
             Inl e \<Rightarrow> Reject e
           | Inr kept \<Rightarrow>
               PromiseAll (map (format env session) kept)
                 (\<lambda>r. case r of Inl e \<Rightarrow> Reject e | Inr items \<Rightarrow> Resolve (JArr items)))
      | _ \<Rightarrow> format env session data)"

section \<open>Items\<close>

definition defaultItemsOptions :: ItemsOptions where
  "defaultItemsOptions =
     \<lparr>o_ident = 0, o_vault = None, o_template = None, o_query = None, o_fuse = []\<rparr>"

text \<open>The defaults of the fuzzy search (lines 209-222).\<close>

definition fuse_defaults :: "(string \<times> fuse_value) list" where
  "fuse_defaults =
     [(''shouldSort'', FBool True),
      (''threshold'', FDecimal 15 2),
      (''location'', FNum 0),
      (''distance'', FNum 100),
      (''maxPatternLength'', FNum 32),
      (''minMatchCharLength'', FNum 1),
      (''keys'', FKeys [''uuid'', ''vaultUuid'', ''overview.ainfo'', ''overview.title'', ''overview.url''])]"

text \<open>
  \<open>getItems\<close> (lines 203-227). \<open>!options.query\<close> holds for a query that is
  \<open>undefined\<close> or the empty string. The default value of \<open>options\<close> stands in for an
  argument that is missing.
\<close>

definition getItems_body :: "env \<Rightarrow> Session \<Rightarrow> ItemsOptions option \<Rightarrow> task" where
  "getItems_body env session given =
     (let options = (case given of None \<Rightarrow> defaultItemsOptions | Some opts \<Rightarrow> opts) in
      await (exec env ''list items'' (Some session) (o_vault options) False) (\<lambda>items.
        case o_query options of
          None \<Rightarrow> trim env session items (o_template options)
        | Some query \<Rightarrow>
            if query = [] then trim env session items (o_template options)
            else
              (case fuse_search env items (assign fuse_defaults (o_fuse options)) query of
                 Inl e \<Rightarrow> Reject e
               | Inr filteredAccounts \<Rightarrow> trim env session filteredAccounts (o_template options))))"

definition getItems :: "env \<Rightarrow> Session \<Rightarrow> ItemsOptions option \<Rightarrow> task" where
  "getItems env session given =
     Memo GetItems
       (take (getItems_length env)
          [ASession session,
           (case given of None \<Rightarrow> AVal JUndefined | Some opts \<Rightarrow> AOptions opts)])
       (getItems_body env session given) settle"

text \<open>\<open>getItem\<close> (lines 229-233).\<close>

definition getItem_body :: "env \<Rightarrow> Session \<Rightarrow> string \<Rightarrow> task" where
  "getItem_body env session item_id =
     await (exec env (''get item '' @ item_id) (Some session) None False)
       (\<lambda>item. trim env session item None)"

definition getItem :: "env \<Rightarrow> Session \<Rightarrow> string \<Rightarrow> task" where
  "getItem env session item_id =
     Memo GetItem [ASession session, AVal (JStr item_id)]
       (getItem_body env session item_id) settle"

section \<open>Promises, the caches of memoizee and the event loop\<close>

text \<open>
  The state of the process: the clock, the subprocesses spawned so far (the argument
  vector of each, in order; a child is known by its position), the caches of the
  memoized functions (one map from function and key to the promise cached), the
  promises (\<open>None\<close> while pending), the order in which promises were settled, the
  functions suspended at an \<open>await\<close> (each with the promise it will settle), and the
  promises handed to the callers of the exported functions.
\<close>

datatype wait =
    OnChild nat "error + string \<Rightarrow> task"
  | OnPromise nat "error + jsval \<Rightarrow> task"
  | OnAll "nat list" "error + jsval list \<Rightarrow> task"

record config =
  clock :: int
  spawned :: "string list list"
  cache :: "fname \<times> arg list \<Rightarrow> nat option"
  promises :: "(error + jsval) option list"
  settled :: "nat list"
  waiting :: "(nat \<times> wait) list"
  handles :: "nat list"

definition initial :: "int \<Rightarrow> config" where
  "initial t = \<lparr>clock = t, spawned = [], cache = (\<lambda>fk. None), promises = [], settled = [],
                 waiting = [], handles = []\<rparr>"

definition new_promise :: "config \<Rightarrow> config" where
  "new_promise c = c\<lparr>promises := promises c @ [None]\<rparr>"

text \<open>A promise is settled once: settling a settled promise changes nothing.\<close>

definition settle_promise :: "nat \<Rightarrow> error + jsval \<Rightarrow> config \<Rightarrow> config" where
  "settle_promise p r c =
     (if p < length (promises c) \<and> promises c ! p = None
      then c\<lparr>promises := (promises c)[p := Some r], settled := settled c @ [p]\<rparr>
      else c)"

definition suspend :: "nat \<Rightarrow> wait \<Rightarrow> config \<Rightarrow> config" where
  "suspend p w c = c\<lparr>waiting := waiting c @ [(p, w)]\<rparr>"

text \<open>
  A call of a memoized function: the cached promise when the key is in the cache of the
  function; otherwise the function is called and the promise it returns is cached.
  \<open>start q\<close> runs the function on behalf of the promise \<open>q\<close> up to its first \<open>await\<close>.
  memoizee stores the promise once the function has returned it, that is after this
  first stretch; every memoized function of the program begins with \<open>await exec\<close>, which
  calls no memoized function before it suspends, so the entry may as well be written
  first, as here.
\<close>

definition memoized :: "fname \<Rightarrow> arg list \<Rightarrow> (nat \<Rightarrow> config \<Rightarrow> config) \<Rightarrow> config \<Rightarrow> nat \<times> config" where
  "memoized f key start c =
     (case cache c (f, key) of
        Some q \<Rightarrow> (q, c)
      | None \<Rightarrow>
          (let q = length (promises c)
           in (q, start q ((new_promise c)\<lparr>cache := (cache c)((f, key) \<mapsto> q)\<rparr>))))"

text \<open>A call of a plain \<open>async\<close> function: a new promise each time.\<close>

definition started :: "(nat \<Rightarrow> config \<Rightarrow> config) \<Rightarrow> config \<Rightarrow> nat \<times> config" where
  "started start c = (let q = length (promises c) in (q, start q (new_promise c)))"

fun start_all :: "(nat \<Rightarrow> config \<Rightarrow> config) list \<Rightarrow> config \<Rightarrow> nat list \<times> config" where
  "start_all [] c = ([], c)"
| "start_all (start # rest) c =
     (let (q, c1) = started start c; (qs, c2) = start_all rest c1 in (q # qs, c2))"

text \<open>
  \<open>advance t p c\<close> runs the function \<open>t\<close>, whose promise is \<open>p\<close>, until it returns,
  throws or reaches an \<open>await\<close>. A subprocess is spawned as soon as its \<open>Fork\<close> is
  reached, and a memoized function called for the first time runs up to its own first
  \<open>await\<close> inside the call.
\<close>

primrec advance :: "task \<Rightarrow> nat \<Rightarrow> config \<Rightarrow> config" where
  "advance (Resolve v) p c = settle_promise p (Inr v) c"
| "advance (Reject e) p c = settle_promise p (Inl e) c"
| "advance (Now k) p c = advance (k (clock c)) p c"
| "advance (Fork args k) p c =
     suspend p (OnChild (length (spawned c)) k) (c\<lparr>spawned := spawned c @ [args]\<rparr>)"
| "advance (Memo f key body k) p c =
     (let (q, c1) = memoized f key (advance body) c in suspend p (OnPromise q k) c1)"
| "advance (PromiseAll ts k) p c =
     (let (qs, c1) = start_all (map advance ts) c in suspend p (OnAll qs k) c1)"

text \<open>
  A caller invoking an exported function. The exported memoized functions are the
  tasks \<open>Memo f key body settle\<close>: the caller receives the promise memoizee holds.
\<close>

fun invoke :: "task \<Rightarrow> config \<Rightarrow> nat \<times> config" where
  "invoke (Memo f key body k) c = memoized f key (advance body) c"
| "invoke t c = started (advance t) c"

text \<open>
  What \<open>Promise.all\<close> of the promises \<open>qs\<close> has to deliver: the reason of the one that
  was rejected first, or the values once all are resolved, or nothing yet.
\<close>

definition outcome :: "config \<Rightarrow> nat \<Rightarrow> (error + jsval) option" where
  "outcome c q = (if q < length (promises c) then promises c ! q else None)"

definition rejected :: "config \<Rightarrow> nat \<Rightarrow> bool" where
  "rejected c q = (case outcome c q of Some (Inl e) \<Rightarrow> True | _ \<Rightarrow> False)"

fun values_of :: "config \<Rightarrow> nat list \<Rightarrow> jsval list option" where
  "values_of c [] = Some []"
| "values_of c (q # qs) =
     (case outcome c q of
        Some (Inr v) \<Rightarrow> (case values_of c qs of Some vs \<Rightarrow> Some (v # vs) | None \<Rightarrow> None)
      | _ \<Rightarrow> None)"

definition outcome_all :: "config \<Rightarrow> nat list \<Rightarrow> (error + jsval list) option" where
  "outcome_all c qs =
     (case find (\<lambda>q. q \<in> set qs \<and> rejected c q) (settled c) of
        Some q \<Rightarrow> (case outcome c q of Some (Inl e) \<Rightarrow> Some (Inl e) | _ \<Rightarrow> None)
      | None \<Rightarrow> (case values_of c qs of Some vs \<Rightarrow> Some (Inr vs) | None \<Rightarrow> None))"

text \<open>The suspended function that waits for child \<open>n\<close>, taken out of the list.\<close>

fun take_child :: "nat \<Rightarrow> (nat \<times> wait) list \<Rightarrow> ((nat \<times> (error + string \<Rightarrow> task)) \<times> (nat \<times> wait) list) option" where
  "take_child n [] = None"
| "take_child n ((p, OnChild m k) # ws) =
     (if m = n then Some ((p, k), ws)
      else case take_child n ws of
        None \<Rightarrow> None
      | Some (found, rest) \<Rightarrow> Some (found, (p, OnChild m k) # rest))"
| "take_child n (w # ws) =
     (case take_child n ws of
        None \<Rightarrow> None
      | Some (found, rest) \<Rightarrow> Some (found, w # rest))"

definition child_reports :: "nat \<Rightarrow> error + string \<Rightarrow> config \<Rightarrow> config" where
  "child_reports n r c =
     (case take_child n (waiting c) of
        None \<Rightarrow> c
      | Some ((p, k), rest) \<Rightarrow> advance (k r) p (c\<lparr>waiting := rest\<rparr>))"

text \<open>
  \<open>resume i c\<close> continues the \<open>i\<close>-th suspended function if what it awaits is
  settled, and does nothing otherwise.
\<close>

definition resume :: "nat \<Rightarrow> config \<Rightarrow> config" where
  "resume i c =
     (if i < length (waiting c) then
        (let rest = take i (waiting c) @ drop (Suc i) (waiting c) in
         case waiting c ! i of
           (p, OnChild n k) \<Rightarrow> c
         | (p, OnPromise q k) \<Rightarrow>
             (case outcome c q of
                None \<Rightarrow> c
              | Some r \<Rightarrow> advance (k r) p (c\<lparr>waiting := rest\<rparr>))
         | (p, OnAll qs k) \<Rightarrow>
             (case outcome_all c qs of
                None \<Rightarrow> c
              | Some r \<Rightarrow> advance (k r) p (c\<lparr>waiting := rest\<rparr>)))
      else c)"

text \<open>
  The events of the loop: a caller invokes an exported function; child \<open>n\<close> closes
  with its output, or fails; a suspended function is resumed; the clock moves. The
  theorems below hold for every sequence of events, so for the order in which the
  engine runs its jobs.
\<close>

datatype event =
    Invoke task
  | Close nat string
  | Fail nat error
  | Resume nat
  | Clock int

fun step :: "event \<Rightarrow> config \<Rightarrow> config" where
  "step (Invoke t) c = (let (q, c1) = invoke t c in c1\<lparr>handles := handles c1 @ [q]\<rparr>)"
| "step (Close n out) c = child_reports n (Inr out) c"
| "step (Fail n e) c = child_reports n (Inl e) c"
| "step (Resume i) c = resume i c"
| "step (Clock t) c = c\<lparr>clock := t\<rparr>"

definition run :: "event list \<Rightarrow> config \<Rightarrow> config" where
  "run es c = fold step es c"


text \<open>
  The outcomes a function can have. \<open>tool args x\<close> says that a subprocess spawned with
  the argument vector \<open>args\<close> may report \<open>x\<close>: its output when it closes, or the error
  of a failed spawn. The clock may show any instant. The promise a \<open>Memo\<close> node awaits
  is that of a run of the memoized function with the same key; for the functions the
  program awaits (\<open>getAccount\<close>, \<open>getVault\<close>, \<open>getTemplates\<close>) the key holds all the
  arguments, so it is a run of \<open>body\<close>.
\<close>

type_synonym tool = "string list \<Rightarrow> error + string \<Rightarrow> bool"

inductive completes :: "tool \<Rightarrow> task \<Rightarrow> error + jsval \<Rightarrow> bool" for tool where
  Resolve: "completes tool (Resolve v) (Inr v)"
| Reject: "completes tool (Reject e) (Inl e)"
| Now: "completes tool (k t) r \<Longrightarrow> completes tool (Now k) r"
| Fork: "tool args x \<Longrightarrow> completes tool (k x) r \<Longrightarrow> completes tool (Fork args k) r"
| Memo: "completes tool body x \<Longrightarrow> completes tool (k x) r
           \<Longrightarrow> completes tool (Memo f key body k) r"
| All_resolved:
    "list_all2 (\<lambda>t v. completes tool t (Inr v)) ts vs \<Longrightarrow> completes tool (k (Inr vs)) r
       \<Longrightarrow> completes tool (PromiseAll ts k) r"
| All_rejected:
    "t \<in> set ts \<Longrightarrow> completes tool t (Inl e) \<Longrightarrow> completes tool (k (Inl e)) r
       \<Longrightarrow> completes tool (PromiseAll ts k) r"


text \<open>
  A run in which the subprocesses report what the tool may answer: each report of a
  child that was spawned is one \<open>tool\<close> allows for the arguments of that child.
\<close>

fun reported :: "tool \<Rightarrow> event \<Rightarrow> config \<Rightarrow> bool" where
  "reported tool (Close n out) c = (n < length (spawned c) \<longrightarrow> tool (spawned c ! n) (Inr out))"
| "reported tool (Fail n e) c = (n < length (spawned c) \<longrightarrow> tool (spawned c ! n) (Inl e))"
| "reported tool e c = True"

fun consistent :: "tool \<Rightarrow> event list \<Rightarrow> config \<Rightarrow> bool" where
  "consistent tool [] c = True"
| "consistent tool (e # es) c = (reported tool e c \<and> consistent tool es (step e c))"

section \<open>The event loop and the outcomes agree\<close>

text \<open>
  \<open>completes\<close> describes one function by itself; the event loop runs many at once
  and shares their promises through the caches. What ties the two together is an
  invariant of the state, \<open>sound\<close>, relative to a map \<open>G\<close> from each promise to the
  function that was started for it: a settled promise holds an outcome of its
  function; what a suspended function can still do, given outcomes of what it awaits
  or a report the tool may give for the arguments of the child it waits for, are
  outcomes of the function of its own promise; and a cached promise is that of a run
  of the memoized function with that key.

  \<open>K f key b\<close> says that \<open>b\<close> is a body of the memoized function \<open>f\<close> for the key;
  \<open>C\<close> is \<open>K\<close> for the functions that are awaited inside the program, where the key
  has to determine the body (\<open>canonical\<close>). A function is well formed, \<open>wf\<close>, when each
  \<open>Memo\<close> node in it names such a function with its body.
\<close>

type_synonym bodies = "fname \<Rightarrow> arg list \<Rightarrow> task \<Rightarrow> bool"

primrec wf :: "bodies \<Rightarrow> task \<Rightarrow> bool" where
  "wf C (Resolve v) = True"
| "wf C (Reject e) = True"
| "wf C (Now k) = (\<forall>t. wf C (k t))"
| "wf C (Fork args k) = (\<forall>x. wf C (k x))"
| "wf C (Memo f key body k) = (C f key body \<and> wf C body \<and> (\<forall>x. wf C (k x)))"
| "wf C (PromiseAll ts k) = (list_all (wf C) ts \<and> (\<forall>x. wf C (k x)))"

definition canonical :: "bodies \<Rightarrow> bodies \<Rightarrow> bool" where
  "canonical C K =
     ((\<forall>f key b. C f key b \<longrightarrow> K f key b)
      \<and> (\<forall>f key b b'. C f key b \<longrightarrow> K f key b' \<longrightarrow> b' = b))"

fun good_wait :: "tool \<Rightarrow> bodies \<Rightarrow> (nat \<Rightarrow> task) \<Rightarrow> nat \<Rightarrow> string list list \<Rightarrow> nat \<Rightarrow> wait
                    \<Rightarrow> bool" where
  "good_wait tool C G N S p (OnChild n k) =
     (n < length S \<and> (\<forall>x. wf C (k x))
      \<and> (\<forall>x r. tool (S ! n) x \<longrightarrow> completes tool (k x) r \<longrightarrow> completes tool (G p) r))"
| "good_wait tool C G N S p (OnPromise q k) =
     (q < N \<and> (\<forall>x. wf C (k x))
      \<and> (\<forall>x r. completes tool (G q) x \<longrightarrow> completes tool (k x) r \<longrightarrow> completes tool (G p) r))"
| "good_wait tool C G N S p (OnAll qs k) =
     ((\<forall>q \<in> set qs. q < N) \<and> (\<forall>x. wf C (k x))
      \<and> (\<forall>vs r. list_all2 (\<lambda>q v. completes tool (G q) (Inr v)) qs vs \<longrightarrow> completes tool (k (Inr vs)) r
             \<longrightarrow> completes tool (G p) r)
      \<and> (\<forall>q \<in> set qs. \<forall>e r. completes tool (G q) (Inl e) \<longrightarrow> completes tool (k (Inl e)) r
             \<longrightarrow> completes tool (G p) r))"

definition sound :: "tool \<Rightarrow> bodies \<Rightarrow> bodies \<Rightarrow> (nat \<Rightarrow> task) \<Rightarrow> config \<Rightarrow> bool" where
  "sound tool C K G c =
     ((\<forall>p r. outcome c p = Some r \<longrightarrow> completes tool (G p) r)
      \<and> (\<forall>(p, w) \<in> set (waiting c).
            p < length (promises c) \<and> good_wait tool C G (length (promises c)) (spawned c) p w)
      \<and> (\<forall>f key q. cache c (f, key) = Some q \<longrightarrow> q < length (promises c) \<and> K f key (G q)))"

text \<open>A later state with a later map: the promises there were keep their functions.\<close>

definition agrees :: "nat \<Rightarrow> (nat \<Rightarrow> task) \<Rightarrow> (nat \<Rightarrow> task) \<Rightarrow> bool" where
  "agrees N G G' = (\<forall>p < N. G' p = G p)"

definition extends :: "tool \<Rightarrow> bodies \<Rightarrow> bodies \<Rightarrow> (nat \<Rightarrow> task) \<Rightarrow> config
                        \<Rightarrow> (nat \<Rightarrow> task) \<Rightarrow> config \<Rightarrow> bool" where
  "extends tool C K G c G' c' =
     (agrees (length (promises c)) G G' \<and> sound tool C K G' c'
      \<and> length (promises c) \<le> length (promises c'))"

text \<open>
  What a caller may invoke, and the functions the promise it receives may be the
  promise of: the function itself, or for a memoized function a body with the same key.
\<close>

fun invocable :: "bodies \<Rightarrow> bodies \<Rightarrow> task \<Rightarrow> bool" where
  "invocable C K (Memo f key body k) = (K f key body \<and> wf C body)"
| "invocable C K t = wf C t"

fun runs_of :: "bodies \<Rightarrow> task \<Rightarrow> task \<Rightarrow> bool" where
  "runs_of K (Memo f key body k) b = K f key b"
| "runs_of K t b = (b = t)"

text \<open>
  The program: the bodies of its seven memoized functions with their keys, the three of
  them that are awaited inside the program (by \<open>getUsers\<close>, \<open>getUser\<close>, \<open>getVault\<close> and
  \<open>format\<close>), and the nine exported functions.
\<close>

inductive memo_body :: "env \<Rightarrow> fname \<Rightarrow> arg list \<Rightarrow> task \<Rightarrow> bool" for env where
  "memo_body env GetAccount [ASession session] (getAccount_body env session)"
| "memo_body env GetUsers [ASession session] (getUsers_body env session)"
| "memo_body env GetUser [ASession session, AVal (JStr user_id)] (getUser_body env session user_id)"
| "memo_body env GetTemplates [ASession session] (getTemplates_body env session)"
| "memo_body env GetVault [ASession session, AVal vault_id] (getVault_body env session vault_id)"
| "memo_body env GetItems
     (take (getItems_length env)
        [ASession session, (case given of None \<Rightarrow> AVal JUndefined | Some opts \<Rightarrow> AOptions opts)])
     (getItems_body env session given)"
| "memo_body env GetItem [ASession session, AVal (JStr item_id)] (getItem_body env session item_id)"

definition awaited :: "env \<Rightarrow> fname \<Rightarrow> arg list \<Rightarrow> task \<Rightarrow> bool" where
  "awaited env f key b = (f \<in> {GetAccount, GetTemplates, GetVault} \<and> memo_body env f key b)"

inductive exported :: "env \<Rightarrow> task \<Rightarrow> bool" for env where
  "exported env (getSessionToken env credentials)"
| "exported env (getAccount env session)"
| "exported env (getUsers env session)"
| "exported env (getUser env session user_id)"
| "exported env (getTemplates env session)"
| "exported env (getVaults env session)"
| "exported env (getVault env session vault_id)"
| "exported env (getItems env session given)"
| "exported env (getItem env session item_id)"

text \<open>
  The outcome, after the events \<open>es\<close>, of the promise a caller received from invoking
  \<open>t\<close> in the state the events \<open>es0\<close> lead to from the initial state.
\<close>

definition promise_outcome :: "int \<Rightarrow> event list \<Rightarrow> task \<Rightarrow> event list \<Rightarrow> (error + jsval) option" where
  "promise_outcome t0 es0 t es =
     outcome (run es (snd (invoke t (run es0 (initial t0))))) (fst (invoke t (run es0 (initial t0))))"

text \<open>
  In the run that \<open>promise_outcome\<close> looks at, the subprocesses report what the tool may
  answer.
\<close>

definition answered :: "tool \<Rightarrow> int \<Rightarrow> event list \<Rightarrow> task \<Rightarrow> event list \<Rightarrow> bool" where
  "answered tool t0 es0 t es =
     (consistent tool es0 (initial t0)
      \<and> consistent tool es (snd (invoke t (run es0 (initial t0)))))"

section \<open>Resolved items\<close>

text \<open>
  The words of the specification for the item made from the raw record \<open>raw\<close>: it is
  an object that carries the id and the title of the record; its \<open>vault\<close> is a
  VaultDetails object obtained from the vault-details query for the vault id of the
  record; its \<open>template\<close> is an entry of the list the templates query resolved to,
  one whose id is strictly equal to the template id of the record, and when the record
  has a template id that entry is an object, not an id.
\<close>

definition is_vault_details :: "jsval \<Rightarrow> bool" where
  "is_vault_details v =
     (is_object v \<and> map fst (own_keys v) = [''uuid'', ''name'', ''description'', ''avatarUrl''])"

definition resolved :: "tool \<Rightarrow> env \<Rightarrow> Session \<Rightarrow> jsval \<Rightarrow> jsval \<Rightarrow> bool" where
  "resolved tool env session raw item =
     (is_object item
      \<and> property item ''uuid'' = property raw ''uuid''
      \<and> property item ''title'' = property (property raw ''overview'') ''title''
      \<and> completes tool (getVault_body env session (property raw ''vaultUuid''))
           (Inr (property item ''vault''))
      \<and> is_vault_details (property item ''vault'')
      \<and> (\<exists>ts. completes tool (getTemplates_body env session) (Inr (JArr ts))
              \<and> property item ''template'' \<in> set ts)
      \<and> strict_eq (property (property item ''template'') ''uuid'') (property raw ''templateUuid'')
      \<and> (property raw ''templateUuid'' \<noteq> JUndefined \<longrightarrow> is_object (property item ''template'')))"


text \<open>
  The options in force, and the key under which memoizee files a call of \<open>getItems\<close>
  (as in \<open>getItems\<close> above).
\<close>

definition options_of :: "ItemsOptions option \<Rightarrow> ItemsOptions" where
  "options_of given = (case given of None \<Rightarrow> defaultItemsOptions | Some opts \<Rightarrow> opts)"

definition items_key :: "env \<Rightarrow> Session \<Rightarrow> ItemsOptions option \<Rightarrow> arg list" where
  "items_key env session given =
     take (getItems_length env)
       [ASession session, (case given of None \<Rightarrow> AVal JUndefined | Some opts \<Rightarrow> AOptions opts)]"

text \<open>
  The records behind a result. \<open>searched\<close>: what \<open>getItems\<close> passes on of the items
  listed, all of them without a query, what the fuzzy search returns with one.
  \<open>listed\<close>: a record of a \<open>list items\<close> output for the session, passed on by a call
  of \<open>getItems\<close> filed under the same key. \<open>fetched\<close>: a record of the \<open>get item\<close>
  output for the id.
\<close>

definition searched :: "env \<Rightarrow> ItemsOptions \<Rightarrow> jsval \<Rightarrow> jsval \<Rightarrow> bool" where
  "searched env options items data =
     (case o_query options of
        None \<Rightarrow> data = items
      | Some query \<Rightarrow>
          if query = [] then data = items
          else fuse_search env items (assign fuse_defaults (o_fuse options)) query = Inr data)"



text \<open>
  One item for each record, in the order of the records, each what \<open>format\<close> makes of
  its record.
\<close>

definition formatted :: "tool \<Rightarrow> env \<Rightarrow> Session \<Rightarrow> jsval \<Rightarrow> jsval \<Rightarrow> bool" where
  "formatted tool env session raw item =
     (completes tool (format env session raw) (Inr item)
      \<and> property item ''uuid'' = property raw ''uuid'')"

definition all_formatted :: "tool \<Rightarrow> env \<Rightarrow> Session \<Rightarrow> jsval \<Rightarrow> jsval \<Rightarrow> bool" where
  "all_formatted tool env session data v =
     (case data of
        JArr xs \<Rightarrow> (\<exists>items. v = JArr items \<and> list_all2 (formatted tool env session) xs items)
      | _ \<Rightarrow> formatted tool env session data v)"

section \<open>Sample data\<close>

text \<open>A Login item as the tool writes it, with a password field found by designation
  before one found by name; and the Login template.\<close>

definition sample_fields :: "jsval list" where
  "sample_fields =
     [JObj [(''name'', JStr ''user''), (''designation'', JStr ''username''),
            (''type'', JStr ''T''), (''value'', JStr ''bob'')],
      JObj [(''name'', JStr ''pw''), (''designation'', JStr ''Password''),
            (''type'', JStr ''P''), (''value'', JStr ''from designation'')],
      JObj [(''name'', JStr ''PassWord''), (''designation'', JStr []),
            (''type'', JStr ''P''), (''value'', JStr ''from name'')]]"

definition sample_login_item :: jsval where
  "sample_login_item = JObj
     [(''uuid'', JStr ''i1''), (''vaultUuid'', JStr ''v1''), (''templateUuid'', JStr ''001''),
      (''overview'', JObj [(''title'', JStr ''Mail''), (''ainfo'', JStr ''bob'')]),
      (''details'', JObj [(''fields'', JArr sample_fields)])]"

definition login_template :: jsval where
  "login_template = JObj [(''uuid'', JStr ''001''), (''name'', JStr ''Login'')]"

text \<open>
  A session that expires at instant 1000, and an instance of the parameters:
  \<open>JSON.parse\<close> on the outputs the examples use, no string that is a number, a
  fuzzy search that keeps every item.
\<close>

definition sample_session :: Session where
  "sample_session = \<lparr>ident = 1, token = ''tok'', expiresAt = 1000\<rparr>"

definition sample_parse :: "string \<Rightarrow> jsval option" where
  \<open>sample_parse = map_of
     [(''[]'', JArr []),
      (''{"uuid":"v1","name":"Personal","desc":"","avatar":""}'',
         JObj [(''uuid'', JStr ''v1''), (''name'', JStr ''Personal''),
               (''desc'', JStr []), (''avatar'', JStr [])]),
      (''{"uuid":"a1","name":"Home","baseAvatarURL":"https://c/","avatar":"me.png"}'',
         JObj [(''uuid'', JStr ''a1''), (''name'', JStr ''Home''),
               (''baseAvatarURL'', JStr ''https://c/''), (''avatar'', JStr ''me.png'')]),
      (''[{"uuid":"001","name":"Login"}]'', JArr [login_template]),
      (''{"uuid":"i1","vaultUuid":"v1","templateUuid":"001","overview":{"title":"Mail","ainfo":"bob"},"details":{"fields":[{"name":"user","designation":"username","type":"T","value":"bob"},{"name":"pw","designation":"Password","type":"P","value":"from designation"},{"name":"PassWord","designation":"","type":"P","value":"from name"}]}}'',
         sample_login_item),
      (''[{"uuid":"i1","vaultUuid":"v1","templateUuid":"001","overview":{"title":"Mail","ainfo":"bob"},"details":{"fields":[{"name":"user","designation":"username","type":"T","value":"bob"},{"name":"pw","designation":"Password","type":"P","value":"from designation"},{"name":"PassWord","designation":"","type":"P","value":"from name"}]}}]'',
         JArr [sample_login_item])]\<close>


text \<open>The vault and the item the sample outputs are normalized into.\<close>

definition sample_vault :: jsval where
  "sample_vault =
     JObj [(''uuid'', JStr ''v1''), (''name'', JStr ''Personal''), (''description'', JStr []),
           (''avatarUrl'', JStr ''https://a.1password.com/app/images/avatar-vault-default.png'')]"

definition sample_item :: jsval where
  "sample_item =
     JObj [(''uuid'', JStr ''i1''), (''vault'', sample_vault), (''template'', login_template),
           (''title'', JStr ''Mail''), (''username'', JStr ''bob''),
           (''password'', JStr ''from name'')]"

definition sample_env :: env where
  "sample_env = \<lparr>json_parse = sample_parse, str2num = (\<lambda>s. None),
                  fuse_search = (\<lambda>items options query. Inr items), getItems_length = 1\<rparr>"


text \<open>
  A run in which \<open>getItems\<close> resolves: the tool lists the one item, and answers the
  three queries \<open>format\<close> causes for it.
\<close>

definition sample_list_run :: "event list" where
  \<open>sample_list_run =
     [Close 0 ''[{"uuid":"i1","vaultUuid":"v1","templateUuid":"001","overview":{"title":"Mail","ainfo":"bob"},"details":{"fields":[{"name":"user","designation":"username","type":"T","value":"bob"},{"name":"pw","designation":"Password","type":"P","value":"from designation"},{"name":"PassWord","designation":"","type":"P","value":"from name"}]}}]'',
      Close 1 ''{"uuid":"v1","name":"Personal","desc":"","avatar":""}'',
      Close 2 ''{"uuid":"a1","name":"Home","baseAvatarURL":"https://c/","avatar":"me.png"}'',
      Resume 2, Resume 0,
      Close 3 ''[{"uuid":"001","name":"Login"}]'',
      Resume 1, Resume 0]\<close>

text \<open>
  A tool that answers the queries of the two runs with the outputs above, and nothing
  else.
\<close>

definition sample_tool :: tool where
  \<open>sample_tool args x =
     (map_of
        [([''get'', ''item'', ''i1'', ''--session=tok''],
            Inr ''{"uuid":"i1","vaultUuid":"v1","templateUuid":"001","overview":{"title":"Mail","ainfo":"bob"},"details":{"fields":[{"name":"user","designation":"username","type":"T","value":"bob"},{"name":"pw","designation":"Password","type":"P","value":"from designation"},{"name":"PassWord","designation":"","type":"P","value":"from name"}]}}''),
         ([''list'', ''items'', ''--session=tok''],
            Inr ''[{"uuid":"i1","vaultUuid":"v1","templateUuid":"001","overview":{"title":"Mail","ainfo":"bob"},"details":{"fields":[{"name":"user","designation":"username","type":"T","value":"bob"},{"name":"pw","designation":"Password","type":"P","value":"from designation"},{"name":"PassWord","designation":"","type":"P","value":"from name"}]}}]''),
         ([''get'', ''vault'', ''v1'', ''--session=tok''],
            Inr ''{"uuid":"v1","name":"Personal","desc":"","avatar":""}''),
         ([''get'', ''account'', ''--session=tok''],
            Inr ''{"uuid":"a1","name":"Home","baseAvatarURL":"https://c/","avatar":"me.png"}''),
         ([''list'', ''templates'', ''--session=tok''],
            Inr ''[{"uuid":"001","name":"Login"}]'')] args
      = Some x)\<close>

text \<open>
  Options with the empty string as query; the same with a template filter; options
  with a query; and a fuzzy search that finds nothing.
\<close>

definition empty_query :: ItemsOptions where
  "empty_query = defaultItemsOptions\<lparr>o_ident := 1, o_query := Some []\<rparr>"

definition empty_query_login :: ItemsOptions where
  "empty_query_login =
     defaultItemsOptions\<lparr>o_ident := 2, o_query := Some [],
                          o_template := Some \<lparr>Template.uuid = ''001'', name = ''Login''\<rparr>\<rparr>"

definition query_zzz :: ItemsOptions where
  "query_zzz = defaultItemsOptions\<lparr>o_ident := 3, o_query := Some ''zzz''\<rparr>"

definition deaf_env :: env where
  "deaf_env = sample_env\<lparr>fuse_search := (\<lambda>items options query. Inr (JArr []))\<rparr>"

text \<open>
  A first call of \<open>getItems\<close> with the query \<open>zzz\<close> that has resolved: the tool lists
  the one item and the fuzzy search finds nothing in it. And the tool listing the one
  item, with nothing after it.
\<close>

definition searched_run :: "event list" where
  \<open>searched_run =
     [Invoke (getItems deaf_env sample_session (Some query_zzz)),
      Close 0 ''[{"uuid":"i1","vaultUuid":"v1","templateUuid":"001","overview":{"title":"Mail","ainfo":"bob"},"details":{"fields":[{"name":"user","designation":"username","type":"T","value":"bob"},{"name":"pw","designation":"Password","type":"P","value":"from designation"},{"name":"PassWord","designation":"","type":"P","value":"from name"}]}}]'',
      Resume 0]\<close>

definition listing_run :: "event list" where
  \<open>listing_run = [Close 0 ''[{"uuid":"i1","vaultUuid":"v1","templateUuid":"001","overview":{"title":"Mail","ainfo":"bob"},"details":{"fields":[{"name":"user","designation":"username","type":"T","value":"bob"},{"name":"pw","designation":"Password","type":"P","value":"from designation"},{"name":"PassWord","designation":"","type":"P","value":"from name"}]}}]'']\<close>






section \<open>Properties\<close>

subsection \<open>Response classifier\<close>

lemma error_message_item_not_found:
  "error_message ''[bin-error] x---y (ERROR)  Item 123 not found  '' = Inr ''Item 123 not found''"
  by (simp add: error_message_def split_def index_def startsWith_def trim_str_def isWhiteSpace_def)

lemma item_not_found_not_signed_in:
  "\<not> includes_str ''Item 123 not found'' ''You are not currently signed in.''"
  by (simp add: startsWith_def)

text \<open>
  C1. For the raw output \<open>[bin-error] x---y (ERROR)  Item 123 not found  \<close> the claim asks
  for a QueryError with the message \<open>Item 123 not found\<close>. The envelope is taken apart as
  claimed (\<open>error_message_item_not_found\<close>), and the message does not say "not signed
  in", but the second operand of \<open>||\<close> at line 334 is a non-empty string literal, which
  is truthy: the classifier throws \<open>SessionError('Session invalid')\<close> and the branch
  that builds the QueryError is never taken.
\<close>

theorem classify_item_not_found_is_SessionError:
  "classify parse raw ''[bin-error] x---y (ERROR)  Item 123 not found  ''
     = Inl (SessionError ''Session invalid'')"
  by (simp add: classify_def error_message_item_not_found js_or_def startsWith_def)

subsection \<open>Session Gate\<close>

text \<open>
  C7. A session is valid if and only if the check instant is strictly before its
  expiration instant; at the expiration instant itself it is invalid.
\<close>

theorem isValidSession_iff_strictly_before:
  "(isValidSession now S \<longleftrightarrow> now < expiresAt S) \<and> \<not> isValidSession (expiresAt S) S"
  by (simp add: isValidSession_def)

subsection \<open>The Login mapping rule\<close>






subsection \<open>What no event undoes\<close>












subsection \<open>Query cache\<close>

text \<open>
  C2. Seven of the eight operations are memoized and behave as \<open>memoized_call_again\<close>
  says. \<open>getVaults\<close> is not given to \<open>memoize\<close>: after a first call has resolved (the
  tool answered \<open>[]\<close>), a second call with the same session returns a new promise and
  spawns \<open>list vaults\<close> a second time.
\<close>

theorem getVaults_spawns_again:
  "promises (run [Invoke (getVaults sample_env sample_session), Close 0 ''[]''] (initial 0))
     = [Some (Inr (JArr []))]
   \<and> spawned (run [Invoke (getVaults sample_env sample_session), Close 0 ''[]'',
                    Invoke (getVaults sample_env sample_session)] (initial 0))
     = [[''list'', ''vaults'', ''--session=tok''], [''list'', ''vaults'', ''--session=tok'']]
   \<and> handles (run [Invoke (getVaults sample_env sample_session), Close 0 ''[]'',
                    Invoke (getVaults sample_env sample_session)] (initial 0))
     = [0, 1]"
  by code_simp





subsection \<open>Command builder\<close>

text \<open>
  C6. The argument vector is the tokenized command, then \<open>--session=<token>\<close> exactly
  when a session is supplied and valid, then \<open>--vault=<name>\<close> exactly when a vault is
  supplied, and a subprocess is spawned with it. A supplied session that fails the
  check makes \<open>exec\<close> throw \<open>SessionError('Session invalid')\<close>: its promise is rejected
  and no subprocess is spawned.
\<close>

theorem exec_command_builder:
  "command_args now command session vault =
     (case session of
        None \<Rightarrow>
          Inr (split command '' ''
               @ (case vault of None \<Rightarrow> [] | Some v \<Rightarrow> [''--vault='' @ Vault.name v]))
      | Some s \<Rightarrow>
          if isValidSession now s
          then Inr (split command '' '' @ [''--session='' @ token s]
                    @ (case vault of None \<Rightarrow> [] | Some v \<Rightarrow> [''--vault='' @ Vault.name v]))
          else Inl (SessionError ''Session invalid''))
   \<and> (\<forall>args. command_args (clock c) command session vault = Inr args \<longrightarrow>
         spawned (advance (exec env command session vault raw) p c) = spawned c @ [args])
   \<and> (\<forall>s. session = Some s \<and> \<not> isValidSession (clock c) s \<longrightarrow>
         advance (exec env command session vault raw) p c
           = settle_promise p (Inl (SessionError ''Session invalid'')) c
         \<and> spawned (advance (exec env command session vault raw) p c) = spawned c)"
  by (auto simp: command_args_def exec_def forkBin_def suspend_def settle_promise_def
           split: option.splits sum.splits)

theorem exec_command_builder_witness:
  "command_args 0 ''get item x'' (Some sample_session) (Some \<lparr>Vault.uuid = ''v1'', name = ''Private''\<rparr>)
     = Inr [''get'', ''item'', ''x'', ''--session=tok'', ''--vault=Private'']
   \<and> spawned (advance (exec sample_env ''get item x'' (Some sample_session) None False) 0
                (new_promise (initial 1000))) = []"
  using exec_command_builder[of 0 "''get item x''" "Some sample_session"
          "Some \<lparr>Vault.uuid = ''v1'', name = ''Private''\<rparr>" "initial 0" sample_env False 0]
        exec_command_builder[of 0 "''get item x''" "Some sample_session" None
          "new_promise (initial 1000)" sample_env False 0]
  by (simp add: isValidSession_def sample_session_def split_def startsWith_def initial_def
        new_promise_def settle_promise_def)

subsection \<open>Template filter\<close>

text \<open>
  C5. A raw record as the tool writes it, and as \<open>format\<close> reads it at line 237,
  carries its template id in \<open>templateUuid\<close>; the filter callback reads
  \<open>item.template.uuid\<close> (line 257). On the sample Login record, whose template id is the
  filter's id, \<open>item.template\<close> is \<open>undefined\<close> and \<open>trim\<close> throws a TypeError instead
  of keeping the record.
\<close>

theorem trim_template_filter_throws:
  "trim env session (JArr [sample_login_item]) (Some \<lparr>Template.uuid = ''001'', name = ''Login''\<rparr>)
     = Reject TypeError"
  by (simp add: trim_def template_filter_def sample_login_item_def nullish_def)

subsection \<open>The fuzzy search\<close>

lemma exec_fuse: "exec (env\<lparr>fuse_search := fz\<rparr>) = exec env"
  by (simp add: exec_def fun_eq_iff cong: sum.case_cong)

lemma getAccount_fuse: "getAccount (env\<lparr>fuse_search := fz\<rparr>) = getAccount env"
  by (simp add: getAccount_def getAccount_body_def exec_fuse fun_eq_iff)

lemma vault_details_of_fuse: "vault_details_of (env\<lparr>fuse_search := fz\<rparr>) = vault_details_of env"
  by (simp add: vault_details_of_def avatar_url_def fun_eq_iff)

lemma getVault_fuse: "getVault (env\<lparr>fuse_search := fz\<rparr>) = getVault env"
  by (simp add: getVault_def getVault_body_def vault_details_of_fuse
        exec_fuse getAccount_fuse fun_eq_iff)

lemma getTemplates_fuse: "getTemplates (env\<lparr>fuse_search := fz\<rparr>) = getTemplates env"
  by (simp add: getTemplates_def getTemplates_body_def exec_fuse fun_eq_iff)

lemma format_fuse: "format (env\<lparr>fuse_search := fz\<rparr>) = format env"
  by (simp add: format_def getVault_fuse getTemplates_fuse fun_eq_iff)

lemma trim_fuse: "trim (env\<lparr>fuse_search := fz\<rparr>) = trim env"
  by (simp add: trim_def format_fuse fun_eq_iff cong: jsval.case_cong sum.case_cong)

lemma getItems_body_empty_query:
  "getItems_body env session (Some (options\<lparr>o_query := Some []\<rparr>))
     = getItems_body env session (Some (options\<lparr>o_query := None\<rparr>))"
  by (simp add: getItems_body_def)

lemma getItems_fuse:
  assumes "o_query (options_of given) = None \<or> o_query (options_of given) = Some []"
  shows "getItems (env\<lparr>fuse_search := fz\<rparr>) session given = getItems env session given"
  using assms
  by (auto simp: getItems_def getItems_body_def options_of_def exec_fuse trim_fuse
           split: option.splits)

subsection \<open>Outcomes\<close>

inductive_simps completes_Resolve [simp]: "completes tool (Resolve v) r"
inductive_simps completes_Reject [simp]: "completes tool (Reject e) r"
inductive_simps completes_Now: "completes tool (Now k) r"
inductive_simps completes_Fork: "completes tool (Fork args k) r"
inductive_simps completes_Memo: "completes tool (Memo f key body k) r"
inductive_simps completes_PromiseAll: "completes tool (PromiseAll ts k) r"

lemma completes_settle [simp]: "completes tool (settle x) r \<longleftrightarrow> r = x"
  by (cases x) (auto simp: settle_def)

lemma completes_await:
  "completes tool (await t f) r \<longleftrightarrow>
     (\<exists>v. completes tool t (Inr v) \<and> completes tool (f v) r) \<or> (\<exists>e. completes tool t (Inl e) \<and> r = Inl e)"
proof (induction t arbitrary: r)
  case (Resolve v)
  then show ?case by auto
next
  case (Reject e)
  then show ?case by auto
next
  case (Now k)
  then show ?case by (simp add: completes_Now) blast
next
  case (Fork args k)
  then show ?case by (simp add: completes_Fork) blast
next
  case (Memo g key body k)
  then show ?case by (simp add: completes_Memo) blast
next
  case (PromiseAll ts k)
  then show ?case by (simp add: completes_PromiseAll) blast
qed


lemma completes_memoized [simp]: "completes tool (Memo f key body settle) r \<longleftrightarrow> completes tool body r"
  by (simp add: completes_Memo)

subsection \<open>The event loop and the outcomes agree\<close>

lemma good_wait_mono:
  assumes "good_wait tool C G N S p w" "agrees N G G'" "N \<le> N'" "p < N"
  shows "good_wait tool C G' N' S p w"
proof -
  have pp: "G' p = G p" using assms by (auto simp: agrees_def)
  show ?thesis
  proof (cases w)
    case (OnChild n k)
    then show ?thesis using assms pp by auto
  next
    case (OnPromise q k)
    then have "q < N" using assms by simp
    then have "G' q = G q" using assms by (auto simp: agrees_def)
    then show ?thesis using assms OnPromise pp by auto
  next
    case (OnAll qs k)
    have eq: "\<And>q. q \<in> set qs \<Longrightarrow> G' q = G q" using assms OnAll by (auto simp: agrees_def)
    have l: "list_all2 (\<lambda>q v. completes tool (G' q) (Inr v)) qs vs
               = list_all2 (\<lambda>q v. completes tool (G q) (Inr v)) qs vs" for vs
      by (rule list.rel_cong) (auto simp: eq)
    have 1: "\<forall>q \<in> set qs. q < N'" using assms OnAll by auto
    have 2: "\<forall>x. wf C (k x)" using assms OnAll by auto
    have 3: "\<forall>vs r. list_all2 (\<lambda>q v. completes tool (G' q) (Inr v)) qs vs \<longrightarrow> completes tool (k (Inr vs)) r
                \<longrightarrow> completes tool (G' p) r"
      using assms(1) OnAll unfolding l pp by simp
    have 4: "\<forall>q \<in> set qs. \<forall>e r. completes tool (G' q) (Inl e) \<longrightarrow> completes tool (k (Inl e)) r
                \<longrightarrow> completes tool (G' p) r"
      using assms(1) OnAll eq unfolding pp by simp
    show ?thesis unfolding OnAll good_wait.simps using 1 2 3 4 by blast
  qed
qed

lemma outcome_settle:
  "outcome (settle_promise p r c) q = Some x \<Longrightarrow> outcome c q = Some x \<or> (q = p \<and> x = r)"
  by (auto simp: outcome_def settle_promise_def nth_list_update split: if_splits)

lemma sound_settle:
  assumes "sound tool C K G c" "completes tool (G p) r"
  shows "sound tool C K G (settle_promise p r c)"
proof -
  have e: "length (promises (settle_promise p r c)) = length (promises c)"
       "waiting (settle_promise p r c) = waiting c" "cache (settle_promise p r c) = cache c"
       "spawned (settle_promise p r c) = spawned c"
    by (auto simp: settle_promise_def)
  have "\<forall>q x. outcome (settle_promise p r c) q = Some x \<longrightarrow> completes tool (G q) x"
    using assms outcome_settle[of p r c] unfolding sound_def by blast
  then show ?thesis using assms(1) unfolding sound_def e by blast
qed

lemma sound_suspend:
  assumes "sound tool C K G c" "p < length (promises c)"
      and "good_wait tool C G (length (promises c)) (spawned c) p w"
  shows "sound tool C K G (suspend p w c)"
  using assms by (auto simp: sound_def suspend_def outcome_def)

lemma good_wait_spawned:
  "good_wait tool C G N S p w \<Longrightarrow> good_wait tool C G N (S @ T) p w"
  by (cases w) (auto simp: nth_append)

lemma sound_spawned:
  "sound tool C K G c \<Longrightarrow> sound tool C K G (c\<lparr>spawned := spawned c @ T\<rparr>)"
  by (auto simp: sound_def outcome_def intro: good_wait_spawned)

lemma sound_waiting:
  "sound tool C K G c \<Longrightarrow> set ws \<subseteq> set (waiting c) \<Longrightarrow> sound tool C K G (c\<lparr>waiting := ws\<rparr>)"
  by (auto simp: sound_def outcome_def)

lemma sound_new:
  assumes "sound tool C K G c"
  shows "sound tool C K (G(length (promises c) := t)) (new_promise c)"
proof -
  let ?N = "length (promises c)"
  let ?G = "G(?N := t)"
  have ag: "agrees ?N G ?G" by (simp add: agrees_def)
  have o: "outcome (new_promise c) q = Some x \<Longrightarrow> outcome c q = Some x \<and> q < ?N" for q x
    by (auto simp: outcome_def new_promise_def nth_append split: if_splits)
  have 1: "\<forall>p r. outcome (new_promise c) p = Some r \<longrightarrow> completes tool (?G p) r"
    using assms o by (auto simp: sound_def)
  have 2: "\<forall>(p, w) \<in> set (waiting (new_promise c)).
             p < length (promises (new_promise c))
             \<and> good_wait tool C ?G (length (promises (new_promise c)))
                   (spawned (new_promise c)) p w"
  proof (clarify)
    fix p w assume "(p, w) \<in> set (waiting (new_promise c))"
    then have h: "p < ?N" "good_wait tool C G ?N (spawned c) p w"
      using assms by (auto simp: sound_def new_promise_def)
    from good_wait_mono[OF h(2) ag _ h(1), of "Suc ?N"] h(1)
    show "p < length (promises (new_promise c))
          \<and> good_wait tool C ?G (length (promises (new_promise c)))
                (spawned (new_promise c)) p w"
      by (simp add: new_promise_def)
  qed
  have 3: "\<forall>f key q. cache (new_promise c) (f, key) = Some q
             \<longrightarrow> q < length (promises (new_promise c)) \<and> K f key (?G q)"
  proof (intro allI impI)
    fix f key q assume "cache (new_promise c) (f, key) = Some q"
    then have "cache c (f, key) = Some q" by (simp add: new_promise_def)
    then have "q < ?N" "K f key (G q)" using assms unfolding sound_def by blast+
    then show "q < length (promises (new_promise c)) \<and> K f key (?G q)"
      by (simp add: new_promise_def)
  qed
  show ?thesis unfolding sound_def using 1 2 3 by blast
qed

lemma sound_cache:
  assumes "sound tool C K G c" "q < length (promises c)" "K f key (G q)"
  shows "sound tool C K G (c\<lparr>cache := (cache c)((f, key) \<mapsto> q)\<rparr>)"
  using assms by (auto simp: sound_def outcome_def)

lemma extends_refl: "sound tool C K G c' \<Longrightarrow> length (promises c) \<le> length (promises c') \<Longrightarrow> extends tool C K G c G c'"
  by (simp add: extends_def agrees_def)

lemma extends_trans:
  "extends tool C K G c G1 c1 \<Longrightarrow> extends tool C K G1 c1 G2 c2 \<Longrightarrow> extends tool C K G c G2 c2"
  by (auto simp: extends_def agrees_def)

lemma extends_new:
  assumes "sound tool C K G c"
  shows "extends tool C K G c (G(length (promises c) := t)) (new_promise c)"
  using sound_new[OF assms] by (simp add: extends_def agrees_def new_promise_def)

lemma start_all_sound:
  assumes IH: "\<And>t G c p. t \<in> set ts \<Longrightarrow> wf C t \<Longrightarrow> sound tool C K G c \<Longrightarrow> p < length (promises c)
                 \<Longrightarrow> (\<forall>r. completes tool t r \<longrightarrow> completes tool (G p) r)
                 \<Longrightarrow> \<exists>G'. extends tool C K G c G' (advance t p c)"
  shows "list_all (wf C) ts \<Longrightarrow> sound tool C K G c \<Longrightarrow>
         \<exists>G'. extends tool C K G c G' (snd (start_all (map advance ts) c))
              \<and> list_all2 (\<lambda>q t. q < length (promises (snd (start_all (map advance ts) c))) \<and> G' q = t)
                   (fst (start_all (map advance ts) c)) ts"
  using IH
proof (induction ts arbitrary: G c)
  case Nil
  then show ?case by (auto intro: extends_refl)
next
  case (Cons t ts)
  let ?N = "length (promises c)"
  let ?c0 = "new_promise c"
  let ?G0 = "G(?N := t)"
  let ?c1 = "advance t ?N ?c0"
  let ?c2 = "snd (start_all (map advance ts) ?c1)"
  let ?qs = "fst (start_all (map advance ts) ?c1)"
  have e0: "extends tool C K G c ?G0 ?c0" using Cons.prems(2) by (rule extends_new)
  then have s0: "sound tool C K ?G0 ?c0" by (simp add: extends_def)
  have "\<exists>G'. extends tool C K ?G0 ?c0 G' ?c1"
  proof (rule Cons.prems(3))
    show "t \<in> set (t # ts)" by simp
    show "wf C t" using Cons.prems(1) by simp
    show "sound tool C K ?G0 ?c0" by (rule s0)
    show "?N < length (promises ?c0)" by (simp add: new_promise_def)
    show "\<forall>r. completes tool t r \<longrightarrow> completes tool (?G0 ?N) r" by simp
  qed
  then obtain G1 where e1: "extends tool C K ?G0 ?c0 G1 ?c1" by blast
  then have s1: "sound tool C K G1 ?c1" by (simp add: extends_def)
  have "\<exists>G'. extends tool C K G1 ?c1 G' ?c2
              \<and> list_all2 (\<lambda>q t. q < length (promises ?c2) \<and> G' q = t) ?qs ts"
    using Cons.prems(1) s1 Cons.prems(3) by (intro Cons.IH) auto
  then obtain G2 where e2: "extends tool C K G1 ?c1 G2 ?c2"
      and l2: "list_all2 (\<lambda>q t. q < length (promises ?c2) \<and> G' q = t) ?qs ts" if "G' = G2" for G'
    by blast
  have st: "start_all (map advance (t # ts)) c = (?N # ?qs, ?c2)"
    by (simp add: started_def Let_def split_beta)
  have e: "extends tool C K G c G2 ?c2" using e0 e1 e2 by (blast intro: extends_trans)
  have "?N < length (promises ?c0)" by (simp add: new_promise_def)
  then have n1: "?N < length (promises ?c1)" "?N < length (promises ?c2)"
    using e1 e2 by (auto simp: extends_def)
  have "G1 ?N = t" using e1 by (auto simp: extends_def agrees_def new_promise_def)
  then have "G2 ?N = t" using e2 n1 by (auto simp: extends_def agrees_def)
  then show ?case using e l2[OF refl] n1 unfolding st by auto
qed

lemma list_all2_origin:
  assumes "list_all2 (\<lambda>q t. q < N \<and> G q = t) qs ts"
  shows "list_all2 (\<lambda>q v. completes tool (G q) (Inr v)) qs vs
           \<Longrightarrow> list_all2 (\<lambda>t v. completes tool t (Inr v)) ts vs"
    and "q \<in> set qs \<Longrightarrow> G q \<in> set ts" and "q \<in> set qs \<Longrightarrow> q < N"
  using assms
  by (auto simp: list_all2_conv_all_nth in_set_conv_nth)

lemma advance_sound:
  assumes fn: "canonical C K"
  shows "wf C t \<Longrightarrow> sound tool C K G c \<Longrightarrow> p < length (promises c)
         \<Longrightarrow> (\<forall>r. completes tool t r \<longrightarrow> completes tool (G p) r)
         \<Longrightarrow> \<exists>G'. extends tool C K G c G' (advance t p c)"
proof (induction t arbitrary: G c p)
  case (Resolve v)
  then have "sound tool C K G (settle_promise p (Inr v) c)" by (intro sound_settle) auto
  then show ?case by (auto intro!: exI[of _ G] extends_refl simp: settle_promise_def)
next
  case (Reject e)
  then have "sound tool C K G (settle_promise p (Inl e) c)" by (intro sound_settle) auto
  then show ?case by (auto intro!: exI[of _ G] extends_refl simp: settle_promise_def)
next
  case (Now k)
  have "\<exists>G'. extends tool C K G c G' (advance (k (clock c)) p c)"
    using Now.prems by (intro Now.IH) (auto intro: completes.Now)
  then show ?case by simp
next
  case (Fork args k)
  have "good_wait tool C G (length (promises (c\<lparr>spawned := spawned c @ [args]\<rparr>)))
          (spawned c @ [args]) p (OnChild (length (spawned c)) k)"
    using Fork.prems by (auto intro: completes.Fork)
  then have "sound tool C K G (suspend p (OnChild (length (spawned c)) k) (c\<lparr>spawned := spawned c @ [args]\<rparr>))"
    using Fork.prems by (intro sound_suspend sound_spawned) auto
  then show ?case by (auto intro!: exI[of _ G] extends_refl simp: suspend_def)
next
  case (Memo f key body k)
  let ?N = "length (promises c)"
  from Memo.prems(1) have w: "C f key body" "wf C body" "\<forall>x. wf C (k x)" by auto
  show ?case
  proof (cases "cache c (f, key)")
    case (Some q)
    then have q: "q < ?N" "K f key (G q)" using Memo.prems(2) unfolding sound_def by blast+
    then have "G q = body" using w(1) fn unfolding canonical_def by blast
    then have "good_wait tool C G ?N (spawned c) p (OnPromise q k)"
      using q(1) w(3) Memo.prems(4) by (auto intro: completes.Memo)
    then have "sound tool C K G (suspend p (OnPromise q k) c)"
      using Memo.prems by (intro sound_suspend) auto
    then show ?thesis using Some
      by (auto intro!: exI[of _ G] extends_refl simp: memoized_def suspend_def)
  next
    case None
    let ?c0 = "new_promise c"
    let ?G0 = "G(?N := body)"
    let ?c1 = "?c0\<lparr>cache := (cache c)((f, key) \<mapsto> ?N)\<rparr>"
    let ?c2 = "advance body ?N ?c1"
    have e0: "extends tool C K G c ?G0 ?c0" using Memo.prems(2) by (rule extends_new)
    then have "sound tool C K ?G0 ?c0" by (simp add: extends_def)
    have kb: "K f key body" using w(1) fn unfolding canonical_def by blast
    have "sound tool C K ?G0 (?c0\<lparr>cache := (cache ?c0)((f, key) \<mapsto> ?N)\<rparr>)"
      using \<open>sound tool C K ?G0 ?c0\<close> kb by (intro sound_cache) (auto simp: new_promise_def)
    then have s1: "sound tool C K ?G0 ?c1" by (simp add: new_promise_def)
    then have e01: "extends tool C K G c ?G0 ?c1"
      using e0 by (simp add: extends_def new_promise_def)
    have "\<exists>G'. extends tool C K ?G0 ?c1 G' ?c2"
    proof (rule Memo.IH(1))
      show "wf C body" by (rule w(2))
      show "sound tool C K ?G0 ?c1" by (rule s1)
      show "?N < length (promises ?c1)" by (simp add: new_promise_def)
      show "\<forall>r. completes tool body r \<longrightarrow> completes tool (?G0 ?N) r" by simp
    qed
    then obtain G2 where e2: "extends tool C K ?G0 ?c1 G2 ?c2" by blast
    have e: "extends tool C K G c G2 ?c2" using e01 e2 by (rule extends_trans)
    have n: "?N < length (promises ?c2)" "p < length (promises ?c2)"
      using e2 Memo.prems(3) by (auto simp: extends_def new_promise_def)
    have g: "G2 ?N = body" "G2 p = G p"
      using e2 e Memo.prems(3) by (auto simp: extends_def agrees_def new_promise_def)
    have "good_wait tool C G2 (length (promises ?c2)) (spawned ?c2) p (OnPromise ?N k)"
      using n w(3) Memo.prems(4) g by (auto intro: completes.Memo)
    then have "sound tool C K G2 (suspend p (OnPromise ?N k) ?c2)"
      using e n by (intro sound_suspend) (auto simp: extends_def)
    then have "extends tool C K G c G2 (suspend p (OnPromise ?N k) ?c2)"
      using e by (simp add: extends_def suspend_def)
    then show ?thesis using None
      by (auto intro!: exI[of _ G2] simp: memoized_def Let_def)
  qed
next
  case (PromiseAll ts k)
  let ?c2 = "snd (start_all (map advance ts) c)"
  let ?qs = "fst (start_all (map advance ts) c)"
  from PromiseAll.prems(1) have w: "list_all (wf C) ts" "\<forall>x. wf C (k x)" by auto
  have "\<exists>G'. extends tool C K G c G' ?c2
          \<and> list_all2 (\<lambda>q t. q < length (promises ?c2) \<and> G' q = t) ?qs ts"
    using w(1) PromiseAll.prems(2)
  proof (rule start_all_sound[rotated])
    fix t G c p
    assume "t \<in> set ts" "wf C t" "sound tool C K G c" "p < length (promises c)"
           "\<forall>r. completes tool t r \<longrightarrow> completes tool (G p) r"
    then show "\<exists>G'. extends tool C K G c G' (advance t p c)" by (intro PromiseAll.IH(1)) auto
  qed
  then obtain G2 where e: "extends tool C K G c G2 ?c2"
      and l: "list_all2 (\<lambda>q t. q < length (promises ?c2) \<and> G2 q = t) ?qs ts"
    by blast
  have n: "p < length (promises ?c2)" "G2 p = G p"
    using e PromiseAll.prems(3) by (auto simp: extends_def agrees_def)
  have 3: "\<forall>vs r. list_all2 (\<lambda>q v. completes tool (G2 q) (Inr v)) ?qs vs \<longrightarrow> completes tool (k (Inr vs)) r
              \<longrightarrow> completes tool (G2 p) r"
    using list_all2_origin(1)[OF l] PromiseAll.prems(4) n(2)
    by (auto intro: completes.All_resolved)
  have 4: "\<forall>q \<in> set ?qs. \<forall>e r. completes tool (G2 q) (Inl e) \<longrightarrow> completes tool (k (Inl e)) r
              \<longrightarrow> completes tool (G2 p) r"
    using list_all2_origin(2)[OF l] PromiseAll.prems(4) n(2)
    by (auto intro: completes.All_rejected)
  have "good_wait tool C G2 (length (promises ?c2)) (spawned ?c2) p (OnAll ?qs k)"
    unfolding good_wait.simps using list_all2_origin(3)[OF l] w(2) 3 4 by blast
  then have "sound tool C K G2 (suspend p (OnAll ?qs k) ?c2)"
    using e n by (intro sound_suspend) (auto simp: extends_def)
  then have "extends tool C K G c G2 (suspend p (OnAll ?qs k) ?c2)"
    using e by (simp add: extends_def suspend_def)
  then show ?case by (auto intro!: exI[of _ G2] simp: split_beta)
qed

lemma sound_handles: "sound tool C K G c \<Longrightarrow> sound tool C K G (c\<lparr>handles := hs\<rparr>)"
  by (auto simp: sound_def outcome_def)

lemma sound_clock: "sound tool C K G c \<Longrightarrow> sound tool C K G (c\<lparr>clock := t\<rparr>)"
  by (auto simp: sound_def outcome_def)

lemma started_sound:
  assumes "canonical C K" "wf C t" "sound tool C K G c"
  shows "\<exists>G'. extends tool C K G c G' (snd (started (advance t) c))
              \<and> fst (started (advance t) c) = length (promises c)
              \<and> G' (length (promises c)) = t"
proof -
  let ?N = "length (promises c)"
  let ?G0 = "G(?N := t)"
  let ?c0 = "new_promise c"
  have e0: "extends tool C K G c ?G0 ?c0" using assms(3) by (rule extends_new)
  have "\<exists>G'. extends tool C K ?G0 ?c0 G' (advance t ?N ?c0)"
  proof (rule advance_sound[OF assms(1,2)])
    show "sound tool C K ?G0 ?c0" using e0 by (simp add: extends_def)
    show "?N < length (promises ?c0)" by (simp add: new_promise_def)
    show "\<forall>r. completes tool t r \<longrightarrow> completes tool (?G0 ?N) r" by simp
  qed
  then obtain G1 where e1: "extends tool C K ?G0 ?c0 G1 (advance t ?N ?c0)" by blast
  have "G1 ?N = t" using e1 by (auto simp: extends_def agrees_def new_promise_def)
  moreover have "extends tool C K G c G1 (advance t ?N ?c0)" using e0 e1 by (rule extends_trans)
  ultimately show ?thesis by (auto simp: started_def Let_def)
qed

lemma memoized_sound:
  assumes "canonical C K" "K f key body" "wf C body" "sound tool C K G c"
  shows "\<exists>G'. extends tool C K G c G' (snd (memoized f key (advance body) c))
              \<and> fst (memoized f key (advance body) c) < length (promises (snd (memoized f key (advance body) c)))
              \<and> K f key (G' (fst (memoized f key (advance body) c)))
              \<and> (cache c (f, key) = None \<longrightarrow> G' (fst (memoized f key (advance body) c)) = body)"
proof (cases "cache c (f, key)")
  case (Some q)
  then have q: "q < length (promises c)" "K f key (G q)" using assms(4) unfolding sound_def by blast+
  then show ?thesis using Some assms(4)
    by (auto intro!: exI[of _ G] extends_refl simp: memoized_def)
next
  case None
  let ?N = "length (promises c)"
  let ?G0 = "G(?N := body)"
  let ?c0 = "new_promise c"
  let ?c1 = "?c0\<lparr>cache := (cache c)((f, key) \<mapsto> ?N)\<rparr>"
  let ?c2 = "advance body ?N ?c1"
  have e0: "extends tool C K G c ?G0 ?c0" using assms(4) by (rule extends_new)
  then have "sound tool C K ?G0 ?c0" by (simp add: extends_def)
  then have "sound tool C K ?G0 (?c0\<lparr>cache := (cache ?c0)((f, key) \<mapsto> ?N)\<rparr>)"
    using assms(2) by (intro sound_cache) (auto simp: new_promise_def)
  then have s1: "sound tool C K ?G0 ?c1" by (simp add: new_promise_def)
  then have e01: "extends tool C K G c ?G0 ?c1" using e0 by (simp add: extends_def new_promise_def)
  have "\<exists>G'. extends tool C K ?G0 ?c1 G' ?c2"
  proof (rule advance_sound[OF assms(1,3)])
    show "sound tool C K ?G0 ?c1" by (rule s1)
    show "?N < length (promises ?c1)" by (simp add: new_promise_def)
    show "\<forall>r. completes tool body r \<longrightarrow> completes tool (?G0 ?N) r" by simp
  qed
  then obtain G2 where e2: "extends tool C K ?G0 ?c1 G2 ?c2" by blast
  have "G2 ?N = body" "?N < length (promises ?c2)"
    using e2 by (auto simp: extends_def agrees_def new_promise_def)
  moreover have "extends tool C K G c G2 ?c2" using e01 e2 by (rule extends_trans)
  ultimately show ?thesis using None assms(2) by (auto simp: memoized_def Let_def)
qed

lemma invoke_sound:
  assumes "canonical C K" "invocable C K t" "sound tool C K G c"
  shows "\<exists>G'. extends tool C K G c G' (snd (invoke t c))
              \<and> fst (invoke t c) < length (promises (snd (invoke t c)))
              \<and> runs_of K t (G' (fst (invoke t c)))
              \<and> (\<forall>f key body k. t = Memo f key body k \<and> cache c (f, key) = None
                     \<longrightarrow> G' (fst (invoke t c)) = body)"
proof -
  have plain: "\<exists>G'. extends tool C K G c G' (snd (started (advance t) c))
              \<and> fst (started (advance t) c) < length (promises (snd (started (advance t) c)))
              \<and> G' (fst (started (advance t) c)) = t" if wt: "wf C t"
  proof -
    from started_sound[OF assms(1) wt assms(3)] obtain G' where
      h: "extends tool C K G c G' (snd (started (advance t) c))"
         "fst (started (advance t) c) = length (promises c)" "G' (length (promises c)) = t"
      by blast
    have "sound tool C K (G(length (promises c) := t)) (new_promise c)"
      using assms(3) by (rule sound_new)
    then have "\<exists>G'. extends tool C K (G(length (promises c) := t)) (new_promise c) G'
                  (advance t (length (promises c)) (new_promise c))"
      using wt by (intro advance_sound[OF assms(1)]) (auto simp: new_promise_def)
    then have "length (promises (new_promise c)) \<le> length (promises (snd (started (advance t) c)))"
      by (auto simp: extends_def started_def Let_def)
    then have "length (promises c) < length (promises (snd (started (advance t) c)))"
      by (simp add: new_promise_def)
    then show ?thesis using h by auto
  qed
  show ?thesis
  proof (cases t)
    case (Memo f key body k)
    then show ?thesis using memoized_sound[OF assms(1) _ _ assms(3), of f key body] assms(2)
      by auto
  qed (use plain assms(2) in \<open>simp_all del: advance.simps\<close>)
qed

lemma take_child_Some:
  "take_child n ws = Some ((p, k), rest) \<Longrightarrow> (p, OnChild n k) \<in> set ws \<and> set rest \<subseteq> set ws"
  by (induction n ws arbitrary: rest rule: take_child.induct)
     (auto split: if_splits option.splits)

lemma values_of_Some:
  "values_of c qs = Some vs \<Longrightarrow> list_all2 (\<lambda>q v. outcome c q = Some (Inr v)) qs vs"
  by (induction qs arbitrary: vs) (auto split: option.splits sum.splits)

lemma outcome_all_Inr:
  assumes "outcome_all c qs = Some (Inr vs)"
  shows "list_all2 (\<lambda>q v. outcome c q = Some (Inr v)) qs vs"
  using assms values_of_Some
  by (auto simp: outcome_all_def split: option.splits sum.splits)

lemma outcome_all_Inl:
  assumes "outcome_all c qs = Some (Inl e)"
  shows "\<exists>q \<in> set qs. outcome c q = Some (Inl e)"
  using assms
  by (auto simp: outcome_all_def find_Some_iff split: option.splits sum.splits)

lemma resume_sound:
  assumes fn: "canonical C K" and s: "sound tool C K G c"
  shows "\<exists>G'. extends tool C K G c G' (resume i c)"
proof (cases "i < length (waiting c)")
  case False
  then show ?thesis using s by (auto simp: resume_def intro: extends_refl)
next
  case True
  let ?rest = "take i (waiting c) @ drop (Suc i) (waiting c)"
  let ?c = "c\<lparr>waiting := ?rest\<rparr>"
  obtain p w where pw: "waiting c ! i = (p, w)" by (cases "waiting c ! i")
  have "set ?rest \<subseteq> set (waiting c)" by (auto dest: in_set_takeD in_set_dropD)
  then have s': "sound tool C K G ?c" using s by (rule sound_waiting[rotated])
  have "(p, w) \<in> set (waiting c)" using True pw by (metis nth_mem)
  then have g: "p < length (promises c)" "good_wait tool C G (length (promises c)) (spawned c) p w"
    using s unfolding sound_def by blast+
  have same: "\<exists>G'. extends tool C K G c G' c" using s by (auto intro: extends_refl)
  have go: "\<exists>G'. extends tool C K G c G' (advance t p ?c)"
    if "wf C t" "\<forall>r. completes tool t r \<longrightarrow> completes tool (G p) r" for t
  proof -
    have "\<exists>G'. extends tool C K G ?c G' (advance t p ?c)"
      using that s' g(1) by (intro advance_sound[OF fn]) auto
    then show ?thesis by (simp add: extends_def)
  qed
  show ?thesis
  proof (cases w)
    case (OnChild n k)
    then show ?thesis using True pw same by (simp add: resume_def)
  next
    case (OnPromise q k)
    show ?thesis
    proof (cases "outcome c q")
      case None
      then show ?thesis using True pw same OnPromise by (simp add: resume_def)
    next
      case (Some x)
      then have "completes tool (G q) x" using s unfolding sound_def by blast
      then have "\<exists>G'. extends tool C K G c G' (advance (k x) p ?c)"
        using g(2) OnPromise by (intro go) auto
      then show ?thesis using True pw OnPromise Some by (simp add: resume_def Let_def)
    qed
  next
    case (OnAll qs k)
    show ?thesis
    proof (cases "outcome_all c qs")
      case None
      then show ?thesis using True pw same OnAll by (simp add: resume_def)
    next
      case (Some x)
      have "\<exists>G'. extends tool C K G c G' (advance (k x) p ?c)"
      proof (cases x)
        case (Inl e)
        from outcome_all_Inl[OF Some[unfolded Inl]] obtain q where
          "q \<in> set qs" "outcome c q = Some (Inl e)" by blast
        then have "q \<in> set qs" "completes tool (G q) (Inl e)" using s unfolding sound_def by blast+
        then show ?thesis using g(2) OnAll Inl by (intro go) auto
      next
        case (Inr vs)
        from outcome_all_Inr[OF Some[unfolded Inr]]
        have "list_all2 (\<lambda>q v. completes tool (G q) (Inr v)) qs vs"
          using s unfolding sound_def by (auto elim!: list_all2_mono)
        then show ?thesis using g(2) OnAll Inr by (intro go) auto
      qed
      then show ?thesis using True pw OnAll Some by (simp add: resume_def Let_def)
    qed
  qed
qed

lemma child_reports_sound:
  assumes fn: "canonical C K" and s: "sound tool C K G c"
      and rp: "n < length (spawned c) \<longrightarrow> tool (spawned c ! n) x"
  shows "\<exists>G'. extends tool C K G c G' (child_reports n x c)"
proof (cases "take_child n (waiting c)")
  case None
  then show ?thesis using s by (auto simp: child_reports_def intro: extends_refl)
next
  case (Some a)
  then obtain p k rest where a: "take_child n (waiting c) = Some ((p, k), rest)"
    by (cases a) auto
  let ?c = "c\<lparr>waiting := rest\<rparr>"
  from take_child_Some[OF a] have m: "(p, OnChild n k) \<in> set (waiting c)" "set rest \<subseteq> set (waiting c)"
    by auto
  have s': "sound tool C K G ?c" using s m(2) by (rule sound_waiting)
  have g: "p < length (promises c)"
          "good_wait tool C G (length (promises c)) (spawned c) p (OnChild n k)"
    using s m(1) unfolding sound_def by blast+
  then have "tool (spawned c ! n) x" using rp by simp
  then have "\<exists>G'. extends tool C K G ?c G' (advance (k x) p ?c)"
    using s' g by (intro advance_sound[OF fn]) auto
  then show ?thesis using a by (simp add: child_reports_def extends_def)
qed

lemma step_sound:
  assumes fn: "canonical C K" and s: "sound tool C K G c"
      and w: "\<forall>t. e = Invoke t \<longrightarrow> invocable C K t"
      and rp: "reported tool e c"
  shows "\<exists>G'. extends tool C K G c G' (step e c)"
proof (cases e)
  case (Invoke t)
  then have "invocable C K t" using w by simp
  from invoke_sound[OF fn this s] obtain G' where "extends tool C K G c G' (snd (invoke t c))" by blast
  then have "extends tool C K G c G' (step e c)"
    using Invoke by (simp add: split_beta extends_def sound_handles)
  then show ?thesis by blast
next
  case (Close n out)
  then have "n < length (spawned c) \<longrightarrow> tool (spawned c ! n) (Inr out)" using rp by simp
  from child_reports_sound[OF fn s this] show ?thesis using Close by simp
next
  case (Fail n e')
  then have "n < length (spawned c) \<longrightarrow> tool (spawned c ! n) (Inl e')" using rp by simp
  from child_reports_sound[OF fn s this] show ?thesis using Fail by simp
next
  case (Resume i)
  then show ?thesis using resume_sound[OF fn s] by simp
next
  case (Clock t)
  have "extends tool C K G c G (c\<lparr>clock := t\<rparr>)"
    using sound_clock[OF s, of t] by (simp add: extends_def agrees_def)
  then show ?thesis using Clock by auto
qed

lemma run_sound:
  assumes fn: "canonical C K"
  shows "sound tool C K G c \<Longrightarrow> \<forall>t. Invoke t \<in> set es \<longrightarrow> invocable C K t
         \<Longrightarrow> consistent tool es c \<Longrightarrow> \<exists>G'. extends tool C K G c G' (run es c)"
proof (induction es arbitrary: G c)
  case Nil
  then show ?case by (auto simp: run_def intro: extends_refl)
next
  case (Cons e es)
  have "\<exists>G'. extends tool C K G c G' (step e c)"
    using Cons.prems by (intro step_sound[OF fn]) auto
  then obtain G1 where e1: "extends tool C K G c G1 (step e c)" by blast
  then have "sound tool C K G1 (step e c)" by (simp add: extends_def)
  then have "\<exists>G'. extends tool C K G1 (step e c) G' (run es (step e c))"
    using Cons.prems(2,3) by (intro Cons.IH) auto
  then obtain G2 where "extends tool C K G1 (step e c) G2 (run es (step e c))" by blast
  with e1 have "extends tool C K G c G2 (run es (step e c))" by (rule extends_trans)
  then show ?case by (auto simp: run_def)
qed

lemma sound_initial: "sound tool C K G (initial t)"
  by (simp add: sound_def initial_def outcome_def)

theorem handle_outcome:
  assumes fn: "canonical C K"
      and w0: "\<forall>t'. Invoke t' \<in> set es0 \<longrightarrow> invocable C K t'"
      and wt: "invocable C K t"
      and w1: "\<forall>t'. Invoke t' \<in> set es \<longrightarrow> invocable C K t'"
      and an: "answered tool t0 es0 t es"
      and out: "outcome (run es (snd (invoke t (run es0 (initial t0)))))
                  (fst (invoke t (run es0 (initial t0)))) = Some r"
  shows "\<exists>b. runs_of K t b \<and> completes tool b r
             \<and> (\<forall>f key body k. t = Memo f key body k \<and> cache (run es0 (initial t0)) (f, key) = None
                    \<longrightarrow> b = body)"
proof -
  let ?c = "run es0 (initial t0)"
  from an have c0: "consistent tool es0 (initial t0)"
    and c1: "consistent tool es (snd (invoke t ?c))"
    by (simp_all add: answered_def)
  from run_sound[OF fn sound_initial w0 c0]
  obtain G0 where "extends tool C K (\<lambda>p. Resolve JUndefined) (initial t0) G0 ?c"
    by blast
  then have s0: "sound tool C K G0 ?c" by (simp add: extends_def)
  from invoke_sound[OF fn wt s0] obtain G1 where
    e1: "extends tool C K G0 ?c G1 (snd (invoke t ?c))"
    and q: "fst (invoke t ?c) < length (promises (snd (invoke t ?c)))"
           "runs_of K t (G1 (fst (invoke t ?c)))"
           "\<forall>f key body k. t = Memo f key body k \<and> cache ?c (f, key) = None
               \<longrightarrow> G1 (fst (invoke t ?c)) = body"
    by blast
  then have "sound tool C K G1 (snd (invoke t ?c))" by (simp add: extends_def)
  from run_sound[OF fn this w1 c1] obtain G2 where
    e2: "extends tool C K G1 (snd (invoke t ?c)) G2 (run es (snd (invoke t ?c)))" by blast
  then have "G2 (fst (invoke t ?c)) = G1 (fst (invoke t ?c))"
    using q by (auto simp: extends_def agrees_def)
  moreover have "completes tool (G2 (fst (invoke t ?c))) r"
    using e2 out unfolding extends_def sound_def by blast
  ultimately show ?thesis using q(2,3) by auto
qed

lemma canonical_program: "canonical (awaited env) (memo_body env)"
  unfolding canonical_def awaited_def
  by (auto elim!: memo_body.cases)

lemma wf_settle [simp]: "wf C (settle r)"
  by (cases r) (simp_all add: settle_def)

lemma wf_await: "wf C t \<Longrightarrow> (\<And>v. wf C (f v)) \<Longrightarrow> wf C (await t f)"
  by (induction t) auto

lemma wf_catch: "wf C t \<Longrightarrow> (\<And>e. wf C (h e)) \<Longrightarrow> wf C (catch_task t h)"
  by (induction t) auto

lemma wf_exec [simp]: "wf C (exec env command session vault raw)"
  by (auto simp: exec_def forkBin_def split: sum.splits)

lemma wf_getAccount_body [simp]: "wf C (getAccount_body env session)"
  by (simp add: getAccount_body_def wf_await)

lemma wf_getAccount [simp]: "wf (awaited env) (getAccount env session)"
  by (simp add: getAccount_def awaited_def memo_body.intros)

lemma wf_getTemplates_body [simp]: "wf C (getTemplates_body env session)"
  by (simp add: getTemplates_body_def)

lemma wf_getTemplates [simp]: "wf (awaited env) (getTemplates env session)"
  by (simp add: getTemplates_def awaited_def memo_body.intros)

lemma wf_getVault_body [simp]: "wf (awaited env) (getVault_body env session vault_id)"
  by (simp add: getVault_body_def wf_await)

lemma wf_getVault [simp]: "wf (awaited env) (getVault env session vault_id)"
  by (simp add: getVault_def awaited_def memo_body.intros)

lemma wf_getUsers_body [simp]: "wf (awaited env) (getUsers_body env session)"
  by (simp add: getUsers_body_def wf_await)

lemma wf_getUser_body [simp]: "wf (awaited env) (getUser_body env session user_id)"
  by (simp add: getUser_body_def wf_await)

lemma wf_format [simp]: "wf (awaited env) (format env session item)"
  by (simp add: format_def wf_await)

lemma wf_trim [simp]: "wf (awaited env) (trim env session data template)"
  by (cases data) (auto simp: trim_def list_all_iff split: sum.splits)

lemma wf_getItems_body [simp]: "wf (awaited env) (getItems_body env session given)"
  by (auto simp: getItems_body_def Let_def intro!: wf_await split: option.splits sum.splits)

lemma wf_getItem_body [simp]: "wf (awaited env) (getItem_body env session item_id)"
  by (simp add: getItem_body_def wf_await)

lemma wf_getSessionToken [simp]: "wf C (getSessionToken env credentials)"
  by (simp add: getSessionToken_def wf_catch wf_await)

lemma wf_invocable: "canonical C K \<Longrightarrow> wf C t \<Longrightarrow> invocable C K t"
  by (cases t) (auto simp: canonical_def)

lemma exported_invocable:
  "exported env t \<Longrightarrow> invocable (awaited env) (memo_body env) t"
proof (induction rule: exported.induct)
  case (1 credentials)
  show ?case by (rule wf_invocable[OF canonical_program]) simp
next
  case (6 session)
  show ?case by (rule wf_invocable[OF canonical_program]) (simp add: getVaults_def)
qed (simp_all add: getAccount_def getUsers_def getUser_def getTemplates_def getVault_def
       getItems_def getItem_def memo_body.intros)

text \<open>
  In every run in which the callers invoke exported functions and the subprocesses
  report what the tool may answer, the outcome of the promise a caller received is an
  outcome, in the sense of \<open>completes\<close>, of the function invoked, or for a memoized
  function of a body with the same key: the body of this call when the key was not in
  the cache.
\<close>

theorem exported_outcome:
  assumes "\<forall>t'. Invoke t' \<in> set es0 \<union> set es \<longrightarrow> exported env t'"
      and "exported env t"
      and "answered tool t0 es0 t es"
      and "promise_outcome t0 es0 t es = Some r"
  shows "\<exists>b. runs_of (memo_body env) t b \<and> completes tool b r
             \<and> (\<forall>f key body k. t = Memo f key body k \<and> cache (run es0 (initial t0)) (f, key) = None
                    \<longrightarrow> b = body)"
  using assms unfolding promise_outcome_def
  by (intro handle_outcome[OF canonical_program]) (auto intro: exported_invocable)




subsection \<open>Authentication\<close>




subsection \<open>Resolved items\<close>

lemma find_js_Inr:
  "find_js f xs = Inr y \<Longrightarrow> y = JUndefined \<or> (y \<in> set xs \<and> f y = Inr True)"
  by (induction xs) (auto split: sum.splits if_splits)


lemma map_of_replace:
  "map_of (map (\<lambda>(k', v'). if k' = k then (k', v) else (k', v')) kvs) j
     = (if j = k then map_option (\<lambda>_. v) (map_of kvs j) else map_of kvs j)"
  by (induction kvs) auto

lemma map_of_assign_other:
  "j \<notin> fst ` set source \<Longrightarrow> map_of (assign target source) j = map_of target j"
proof (induction source arbitrary: target)
  case Nil
  then show ?case by simp
next
  case (Cons kv source)
  obtain k v where kv: "kv = (k, v)" by (cases kv)
  with Cons.prems have j: "j \<noteq> k" "j \<notin> fst ` set source" by auto
  show ?case
    using Cons.IH[OF j(2)] j(1)
    by (auto simp: kv map_of_replace map_add_def split: option.splits)
qed

lemma mapper_keys:
  "mapper item template = Inr m \<Longrightarrow> fst ` set (own_keys m) \<subseteq> {''username'', ''password''}"
  by (auto simp: mapper_def own_keys_def Let_def split: if_splits sum.splits)

lemma property_object:
  "strict_eq (property t ''uuid'') x \<Longrightarrow> x \<noteq> JUndefined \<Longrightarrow> is_object t"
  by (cases t) (auto simp: strict_eq_def)

lemma format_item_fields:
  assumes "format_item item vault templates = Inr v"
  shows "is_object v \<and> property v ''uuid'' = property item ''uuid''
         \<and> property v ''title'' = property (property item ''overview'') ''title''
         \<and> property v ''vault'' = vault
         \<and> (\<exists>ts. templates = JArr ts \<and> property v ''template'' \<in> set ts)
         \<and> strict_eq (property (property v ''template'') ''uuid'') (property item ''templateUuid'')
         \<and> (property item ''templateUuid'' \<noteq> JUndefined \<longrightarrow> is_object (property v ''template''))"
proof -
  from assms obtain ts where ts: "templates = JArr ts"
    by (cases templates) (auto simp: format_item_def as_array_def)
  let ?f = "\<lambda>template. if nullish template then Inl TypeError
                   else Inr (strict_eq (property template ''uuid'') (property item ''templateUuid''))"
  from assms ts obtain template mapped where
      tm: "find_js ?f ts = Inr template" "mapper item template = Inr mapped"
      and v: "v = JObj (assign [(''uuid'', property item ''uuid''), (''vault'', vault),
                                (''template'', template),
                                (''title'', property (property item ''overview'') ''title'')]
                               (own_keys mapped))"
    by (auto simp: format_item_def as_array_def split: sum.splits)
  have "template \<noteq> JUndefined" using tm(2) by (auto simp: mapper_def nullish_def)
  with find_js_Inr[OF tm(1)] have t: "template \<in> set ts" "?f template = Inr True" by auto
  from t(2) have eq: "strict_eq (property template ''uuid'') (property item ''templateUuid'')"
    by (auto split: if_splits)
  have nk: "''vault'' \<notin> fst ` set (own_keys mapped)" "''template'' \<notin> fst ` set (own_keys mapped)"
           "''uuid'' \<notin> fst ` set (own_keys mapped)" "''title'' \<notin> fst ` set (own_keys mapped)"
    using mapper_keys[OF tm(2)] by auto
  have p: "property v ''vault'' = vault" "property v ''template'' = template"
          "property v ''uuid'' = property item ''uuid''"
          "property v ''title'' = property (property item ''overview'') ''title''"
    by (simp_all add: v map_of_assign_other[OF nk(1)] map_of_assign_other[OF nk(2)]
          map_of_assign_other[OF nk(3)] map_of_assign_other[OF nk(4)])
  have "is_object v" by (simp add: v)
  moreover have "property item ''templateUuid'' \<noteq> JUndefined \<longrightarrow> is_object template"
    using property_object[OF eq] by blast
  ultimately show ?thesis using ts t(1) eq p by auto
qed

lemma completes_getVault [simp]:
  "completes tool (getVault env session vault_id) r
     \<longleftrightarrow> completes tool (getVault_body env session vault_id) r"
  by (simp add: getVault_def)

lemma completes_getTemplates [simp]:
  "completes tool (getTemplates env session) r \<longleftrightarrow> completes tool (getTemplates_body env session) r"
  by (simp add: getTemplates_def)

lemma completes_getAccount [simp]:
  "completes tool (getAccount env session) r \<longleftrightarrow> completes tool (getAccount_body env session) r"
  by (simp add: getAccount_def)

lemma getVault_body_details:
  assumes "completes tool (getVault_body env session vault_id) (Inr vault)"
  shows "is_vault_details vault"
  using assms
  by (auto simp: getVault_body_def completes_await vault_details_of_def is_vault_details_def
        own_keys_def split: if_splits sum.splits)

lemma format_resolved:
  assumes "completes tool (format env session raw) (Inr item)"
  shows "resolved tool env session raw item"
proof -
  from assms obtain vault templates where
      v: "completes tool (getVault_body env session (property raw ''vaultUuid'')) (Inr vault)"
      and t: "completes tool (getTemplates_body env session) (Inr templates)"
      and f: "format_item raw vault templates = Inr item"
    by (auto simp: format_def completes_await split: if_splits)
  from format_item_fields[OF f] getVault_body_details[OF v] v t show ?thesis
    by (auto simp: resolved_def)
qed

lemma format_formatted:
  "completes tool (format env session raw) (Inr item) \<Longrightarrow> formatted tool env session raw item"
  using format_resolved[of tool env session raw item] by (simp add: formatted_def resolved_def)

lemma all_format_formatted:
  assumes "list_all2 (\<lambda>t v. completes tool t (Inr v)) (map (format env session) kept) items"
  shows "list_all2 (formatted tool env session) kept items"
  using assms
proof (induction kept arbitrary: items)
  case Nil
  then show ?case by simp
next
  case (Cons raw kept)
  then obtain item rest where items: "items = item # rest"
      and h: "completes tool (format env session raw) (Inr item)"
      and r: "list_all2 (\<lambda>t v. completes tool t (Inr v)) (map (format env session) kept) rest"
    by (auto simp: list_all2_Cons1)
  from Cons.IH[OF r] format_formatted[OF h] show ?case by (simp add: items)
qed

text \<open>
  What \<open>trim\<close> resolves with: one item for each record that passes the template
  filter, in the order of the records, or the item of the single record.
\<close>

lemma trim_formatted:
  assumes "completes tool (trim env session data template) (Inr v)"
  shows "case data of
           JArr xs \<Rightarrow> (\<exists>kept items. filter_js (template_filter template) xs = Inr kept
                         \<and> v = JArr items \<and> list_all2 (formatted tool env session) kept items)
         | _ \<Rightarrow> formatted tool env session data v"
proof (cases data)
  case (JArr xs)
  with assms obtain kept where k: "filter_js (template_filter template) xs = Inr kept"
      and p: "completes tool (PromiseAll (map (format env session) kept)
                 (\<lambda>r. case r of Inl e \<Rightarrow> Reject e | Inr items \<Rightarrow> Resolve (JArr items))) (Inr v)"
    by (auto simp: trim_def split: sum.splits)
  from p obtain items where
      i: "list_all2 (\<lambda>t v. completes tool t (Inr v)) (map (format env session) kept) items"
      and v: "v = JArr items"
    by (auto simp: completes_PromiseAll)
  from all_format_formatted[OF i] k v show ?thesis using JArr by auto
qed (use assms in \<open>auto simp: trim_def intro: format_formatted\<close>)

lemma filter_js_none: "filter_js (template_filter None) xs = Inr xs"
  by (induction xs) (simp_all add: template_filter_def)

lemma trim_unfiltered:
  assumes "completes tool (trim env session data None) (Inr v)"
  shows "all_formatted tool env session data v"
  using trim_formatted[OF assms]
  by (cases data) (auto simp: all_formatted_def filter_js_none)




lemma getItems_body_searched:
  assumes "completes tool (getItems_body env session given) (Inr v)"
  shows "\<exists>items data.
           completes tool
             (exec env ''list items'' (Some session) (o_vault (options_of given)) False) (Inr items)
           \<and> searched env (options_of given) items data
           \<and> completes tool (trim env session data (o_template (options_of given))) (Inr v)"
proof -
  let ?options = "options_of given"
  from assms obtain items where
    e: "completes tool (exec env ''list items'' (Some session) (o_vault ?options) False) (Inr items)"
    and k: "completes tool (case o_query ?options of
          None \<Rightarrow> trim env session items (o_template ?options)
        | Some query \<Rightarrow>
            if query = [] then trim env session items (o_template ?options)
            else
              (case fuse_search env items (assign fuse_defaults (o_fuse ?options)) query of
                 Inl e \<Rightarrow> Reject e
               | Inr filteredAccounts \<Rightarrow> trim env session filteredAccounts (o_template ?options)))
          (Inr v)"
    unfolding getItems_body_def options_of_def[symmetric] Let_def
    by (auto simp: completes_await)
  show ?thesis
  proof (cases "o_query ?options")
    case None
    then show ?thesis using e k by (auto simp: searched_def)
  next
    case (Some query)
    show ?thesis
    proof (cases "query = []")
      case True
      then show ?thesis using e k Some by (auto simp: searched_def)
    next
      case False
      then show ?thesis using e k Some
        by (cases "fuse_search env items (assign fuse_defaults (o_fuse ?options)) query")
           (auto simp: searched_def)
    qed
  qed
qed













subsection \<open>Items without a query\<close>

text \<open>
  C10, as the code has it. With the empty string as query \<open>getItems\<close> does what it
  does with no query, and the fuzzy search is not consulted: whatever it is, the call is
  the same. When the call is not answered from the cache and there is no template
  filter, in a run in which the callers invoke exported functions and the subprocesses
  report what the tool may answer, the promise resolves only with the items of all the
  records the tool listed for the session and the vault of the options: one item for
  each record, in the order listed, each what \<open>format\<close> makes of its record.
\<close>

theorem getItems_falsy_query:
  assumes ex: "\<forall>t. Invoke t \<in> set es0 \<union> set es \<longrightarrow> exported env t"
      and q: "o_query (options_of given) = None \<or> o_query (options_of given) = Some []"
      and nt: "o_template (options_of given) = None"
      and miss: "cache (run es0 (initial t0)) (GetItems, items_key env session given) = None"
      and an: "answered tool t0 es0 (getItems env session given) es"
      and out: "promise_outcome t0 es0 (getItems env session given) es = Some (Inr v)"
  shows "getItems (env\<lparr>fuse_search := fz\<rparr>) session given = getItems env session given
         \<and> (\<exists>data. completes tool
                     (exec env ''list items'' (Some session) (o_vault (options_of given)) False)
                     (Inr data)
                  \<and> all_formatted tool env session data v)"
proof
  show "getItems (env\<lparr>fuse_search := fz\<rparr>) session given = getItems env session given"
    using q by (rule getItems_fuse)
next
  have t: "getItems env session given
             = Memo GetItems (items_key env session given) (getItems_body env session given) settle"
    by (simp add: getItems_def items_key_def)
  from exported_outcome[OF ex exported.intros(8) an out]
  obtain b where b: "completes tool b (Inr v)"
      "\<forall>f key body k. getItems env session given = Memo f key body k
          \<and> cache (run es0 (initial t0)) (f, key) = None \<longrightarrow> b = body"
    by blast
  from b(2) t miss have "b = getItems_body env session given" by metis
  with b(1) have "completes tool (getItems_body env session given) (Inr v)" by simp
  from getItems_body_searched[OF this] obtain items data where
      e: "completes tool
            (exec env ''list items'' (Some session) (o_vault (options_of given)) False) (Inr items)"
      and s: "searched env (options_of given) items data"
      and tr: "completes tool (trim env session data (o_template (options_of given))) (Inr v)"
    by blast
  from s q have "data = items" by (auto simp: searched_def)
  moreover from tr nt have "all_formatted tool env session data v"
    by (simp add: trim_unfiltered)
  ultimately show "\<exists>data. completes tool
                     (exec env ''list items'' (Some session) (o_vault (options_of given)) False)
                     (Inr data)
                  \<and> all_formatted tool env session data v"
    using e by blast
qed

lemma empty_query_run_resolves:
  "promise_outcome 0 [] (getItems sample_env sample_session (Some empty_query)) sample_list_run
     = Some (Inr (JArr [sample_item]))"
  by code_simp

lemma empty_query_run_answered:
  "answered sample_tool 0 [] (getItems sample_env sample_session (Some empty_query)) sample_list_run"
  by code_simp

theorem getItems_falsy_query_witness:
  "promise_outcome 0 [] (getItems sample_env sample_session (Some empty_query)) sample_list_run
     = Some (Inr (JArr [sample_item]))
   \<and> (\<exists>data. completes sample_tool
               (exec sample_env ''list items'' (Some sample_session) None False) (Inr data)
            \<and> all_formatted sample_tool sample_env sample_session data (JArr [sample_item]))"
proof -
  have ex: "\<forall>t. Invoke t \<in> set [] \<union> set sample_list_run \<longrightarrow> exported sample_env t"
    by (simp add: sample_list_run_def)
  have q: "o_query (options_of (Some empty_query)) = None
           \<or> o_query (options_of (Some empty_query)) = Some []"
    by (simp add: options_of_def empty_query_def)
  have nt: "o_template (options_of (Some empty_query)) = None"
    by (simp add: options_of_def empty_query_def defaultItemsOptions_def)
  have v: "o_vault (options_of (Some empty_query)) = None"
    by (simp add: options_of_def empty_query_def defaultItemsOptions_def)
  have miss: "cache (run [] (initial 0))
                (GetItems, items_key sample_env sample_session (Some empty_query)) = None"
    by (simp add: run_def initial_def)
  from getItems_falsy_query[OF ex q nt miss empty_query_run_answered empty_query_run_resolves,
         of "fuse_search sample_env"]
  show ?thesis using empty_query_run_resolves unfolding v by blast
qed

text \<open>
  C10, as stated, promises all the listed items for every call with the empty string as
  query. \<open>getItems\<close> is memoized, and for the function as it is written
  (\<open>getItems_length\<close> is 1) memoizee files its calls under the session alone: after a
  call with the query \<open>zzz\<close> that resolved with the empty list, a call with the empty
  string as query and the same session is answered from the cache with that empty
  list, though the tool listed one item; on an empty cache the same call resolves with
  the item. With a template filter the call is rejected with a TypeError, whatever the
  key: the filter reads \<open>item.template.uuid\<close> (line 257), see C5.
\<close>

theorem getItems_empty_query_from_cache:
  "promise_outcome 0 searched_run (getItems deaf_env sample_session (Some empty_query)) []
     = Some (Inr (JArr []))
   \<and> promise_outcome 0 [] (getItems deaf_env sample_session (Some empty_query)) sample_list_run
     = Some (Inr (JArr [sample_item]))
   \<and> promise_outcome 0 [] (getItems sample_env sample_session (Some empty_query_login)) listing_run
     = Some (Inl TypeError)"
  by code_simp

end
